theory Spec2Isabelle
  imports Complex_Main "HOL-Library.Log_Nat"
begin

section \<open>Siding-area model of \<open>src/main.py\<close>\<close>

text \<open>
  The numbers of the program are Python floats (IEEE 754 binary64) and Python ints.
  Ints are modelled as \<open>int\<close>.  Floats are modelled twice:
  \<^item> over exact numbers (\<open>real\<close>), for the properties that are stated over exact
    arithmetic or that do not depend on rounding (triangle difference, wall and
    container totals);
  \<^item> as binary64 values (\<open>f64\<close>), with every operation rounded to nearest, ties to
    even, overflow to an infinity, and NaN, for the unit conversions and for the error
    behaviour of the triangle difference.  The sign of a zero is not modelled: none of
    the functions below can observe it.
  Every \<open>raise\<close> of the source, and every exception raised by an operation of Python
  itself, is a branch returning \<open>Inl\<close> of an \<open>error\<close>.
\<close>

subsection \<open>Errors\<close>

text \<open>
  The explicit raises of the source are \<open>ValueError\<close>s that differ in their message, as
  are the domain errors of \<open>math.sqrt\<close> and of the conversion of a NaN to an integer.
\<close>

datatype message =
    Panel_sq_ft_must_be_positive
  | Base_in_must_be_nonnegative
  | Pitches_must_match
  | Inner_base_must_not_exceed_outer
  | Math_domain_error
  | Cannot_convert_float_NaN_to_integer

datatype error = ValueError message | ZeroDivisionError | OverflowError

subsection \<open>Python primitives over exact numbers\<close>

text \<open>Float division \<open>a / b\<close>: raises on a zero divisor.\<close>

definition py_truediv :: "real \<Rightarrow> real \<Rightarrow> error + real" where
  "py_truediv a b = (if b = 0 then Inl ZeroDivisionError else Inr (a / b))"

text \<open>Rounding of a number to the nearest integer, ties to the even neighbour.\<close>

definition py_round :: "real \<Rightarrow> int" where
  "py_round x =
     (let f = \<lfloor>x\<rfloor>; d = x - real_of_int f
      in if d < 1 / 2 then f
         else if 1 / 2 < d then f + 1
         else if even f then f else f + 1)"

text \<open>\<open>math.sqrt\<close>: raises \<open>ValueError\<close> on a negative argument.\<close>

definition math_sqrt :: "real \<Rightarrow> error + real" where
  "math_sqrt x = (if x < 0 then Inl (ValueError Math_domain_error) else Inr (sqrt x))"

text \<open>\<open>math.isclose(a, b, rel_tol=r, abs_tol=t)\<close>.\<close>

definition math_isclose :: "real \<Rightarrow> real \<Rightarrow> real \<Rightarrow> real \<Rightarrow> bool" where
  "math_isclose a b rel_tol abs_tol \<longleftrightarrow>
     \<bar>a - b\<bar> \<le> max (rel_tol * max \<bar>a\<bar> \<bar>b\<bar>) abs_tol"

subsection \<open>Binary64 numbers\<close>

text \<open>
  \<open>expo x\<close> is the binary exponent of a non-zero \<open>x\<close>: the integer \<open>e\<close> with
  \<open>2^e \<le> |x| < 2^(e+1)\<close>.  \<open>ulp x\<close> is the spacing of the binary64 numbers around
  \<open>x\<close>: 52 fraction bits, and the fixed spacing \<open>2^-1074\<close> of the subnormal numbers
  below \<open>2^-1022\<close>.  \<open>rne x\<close> rounds \<open>x\<close> to the nearest multiple of \<open>ulp x\<close>, ties to
  the even multiple.
\<close>

definition expo :: "real \<Rightarrow> int" where
  "expo x =
     (let y = \<bar>x\<bar>
      in if 1 \<le> y then bitlen \<lfloor>y\<rfloor> - 1 else - bitlen (\<lceil>1 / y\<rceil> - 1))"

definition ulp :: "real \<Rightarrow> real" where
  "ulp x = 2 powi (max (expo x) (- 1022) - 52)"

definition rne :: "real \<Rightarrow> real" where
  "rne x = real_of_int (py_round (x / ulp x)) * ulp x"

text \<open>A float: a finite number, an infinity or NaN.\<close>

datatype f64 = Fin real | PInf | NInf | NaN

text \<open>The result of an operation whose exact value is \<open>x\<close>.\<close>

definition round64 :: "real \<Rightarrow> f64" where
  "round64 x =
     (let y = rne x
      in if 2 ^ 1024 \<le> \<bar>y\<bar> then (if 0 < x then PInf else NInf) else Fin y)"

text \<open>The finite numbers that are binary64 values.\<close>

definition is_f64 :: "real \<Rightarrow> bool" where
  "is_f64 x \<longleftrightarrow> rne x = x \<and> \<bar>x\<bar> < 2 ^ 1024"

fun fneg :: "f64 \<Rightarrow> f64" where
  "fneg (Fin a) = Fin (- a)"
| "fneg PInf = NInf"
| "fneg NInf = PInf"
| "fneg NaN = NaN"

fun fabs :: "f64 \<Rightarrow> f64" where
  "fabs (Fin a) = Fin \<bar>a\<bar>"
| "fabs NaN = NaN"
| "fabs x = PInf"

fun fadd :: "f64 \<Rightarrow> f64 \<Rightarrow> f64" where
  "fadd (Fin a) (Fin b) = round64 (a + b)"
| "fadd NaN y = NaN"
| "fadd x NaN = NaN"
| "fadd PInf NInf = NaN"
| "fadd NInf PInf = NaN"
| "fadd PInf y = PInf"
| "fadd x PInf = PInf"
| "fadd NInf y = NInf"
| "fadd x NInf = NInf"

definition fsub :: "f64 \<Rightarrow> f64 \<Rightarrow> f64" where
  "fsub x y = fadd x (fneg y)"

fun is_neg :: "f64 \<Rightarrow> bool" where
  "is_neg (Fin a) = (a < 0)"
| "is_neg NInf = True"
| "is_neg PInf = False"
| "is_neg NaN = False"

fun fmul :: "f64 \<Rightarrow> f64 \<Rightarrow> f64" where
  "fmul (Fin a) (Fin b) = round64 (a * b)"
| "fmul NaN y = NaN"
| "fmul x NaN = NaN"
| "fmul x y =
     (if x = Fin 0 \<or> y = Fin 0 then NaN
      else if is_neg x = is_neg y then PInf else NInf)"

text \<open>Division by a divisor that is not zero.\<close>

fun fdiv :: "f64 \<Rightarrow> f64 \<Rightarrow> f64" where
  "fdiv (Fin a) (Fin b) = round64 (a / b)"
| "fdiv NaN y = NaN"
| "fdiv x NaN = NaN"
| "fdiv (Fin a) y = Fin 0"
| "fdiv x (Fin b) = (if is_neg x = (b < 0) then PInf else NInf)"
| "fdiv x y = NaN"

text \<open>The comparisons \<open>x < y\<close>, \<open>x <= y\<close> and \<open>x == y\<close>; they are false on NaN.\<close>

fun flt :: "f64 \<Rightarrow> f64 \<Rightarrow> bool" where
  "flt (Fin a) (Fin b) = (a < b)"
| "flt NaN y = False"
| "flt x NaN = False"
| "flt PInf y = False"
| "flt x PInf = True"
| "flt x NInf = False"
| "flt NInf y = True"

definition feq :: "f64 \<Rightarrow> f64 \<Rightarrow> bool" where
  "feq x y \<longleftrightarrow> x \<noteq> NaN \<and> x = y"

definition fle :: "f64 \<Rightarrow> f64 \<Rightarrow> bool" where
  "fle x y \<longleftrightarrow> flt x y \<or> feq x y"

fun ffloor :: "f64 \<Rightarrow> f64" where
  "ffloor (Fin a) = Fin (real_of_int \<lfloor>a\<rfloor>)"
| "ffloor x = x"

definition trunc :: "real \<Rightarrow> int" where
  "trunc z = (if 0 \<le> z then \<lfloor>z\<rfloor> else \<lceil>z\<rceil>)"

text \<open>C's \<open>fmod\<close>, which is exact.\<close>

fun c_fmod :: "f64 \<Rightarrow> f64 \<Rightarrow> f64" where
  "c_fmod (Fin a) (Fin b) = (if b = 0 then NaN else Fin (a - b * real_of_int (trunc (a / b))))"
| "c_fmod NaN y = NaN"
| "c_fmod x NaN = NaN"
| "c_fmod (Fin a) y = Fin a"
| "c_fmod x y = NaN"

subsection \<open>Python primitives on binary64 numbers\<close>

text \<open>\<open>x / y\<close> on floats.\<close>

definition float_truediv :: "f64 \<Rightarrow> f64 \<Rightarrow> error + f64" where
  "float_truediv x y = (if y = Fin 0 then Inl ZeroDivisionError else Inr (fdiv x y))"

text \<open>\<open>a / b\<close> on ints: the quotient, rounded once.\<close>

definition int_truediv :: "int \<Rightarrow> int \<Rightarrow> error + f64" where
  "int_truediv a b =
     (if b = 0 then Inl ZeroDivisionError
      else (case round64 (real_of_int a / real_of_int b) of
              Fin r \<Rightarrow> Inr (Fin r)
            | _ \<Rightarrow> Inl OverflowError))"

text \<open>The conversion of the int operand of a float operation.\<close>

definition float_of_int :: "int \<Rightarrow> error + f64" where
  "float_of_int n =
     (case round64 (real_of_int n) of Fin r \<Rightarrow> Inr (Fin r) | _ \<Rightarrow> Inl OverflowError)"

text \<open>
  CPython's \<open>float_div_mod\<close> for a divisor \<open>wx\<close> that is not zero; it serves \<open>//\<close>.
  A NaN counts as true in the tests \<open>if (mod)\<close> and \<open>if (div)\<close>.
\<close>

definition float_div_mod :: "f64 \<Rightarrow> f64 \<Rightarrow> f64 \<times> f64" where
  "float_div_mod vx wx =
     (let mod0 = c_fmod vx wx;
          div0 = fdiv (fsub vx mod0) wx;
          (mod1, div1) =
            (if mod0 \<noteq> Fin 0
             then (if flt wx (Fin 0) \<noteq> flt mod0 (Fin 0)
                   then (fadd mod0 wx, fsub div0 (Fin 1)) else (mod0, div0))
             else (Fin 0, div0));
          floordiv =
            (if div1 \<noteq> Fin 0
             then (let f = ffloor div1
                   in if flt (Fin (1 / 2)) (fsub div1 f) then fadd f (Fin 1) else f)
             else Fin 0)
      in (floordiv, mod1))"

definition py_floordiv :: "f64 \<Rightarrow> f64 \<Rightarrow> error + f64" where
  "py_floordiv vx wx =
     (if wx = Fin 0 then Inl ZeroDivisionError else Inr (fst (float_div_mod vx wx)))"

text \<open>CPython's \<open>float_rem\<close>, which serves \<open>%\<close>.\<close>

definition py_mod :: "f64 \<Rightarrow> f64 \<Rightarrow> error + f64" where
  "py_mod vx wx =
     (if wx = Fin 0 then Inl ZeroDivisionError
      else
        (let mod0 = c_fmod vx wx
         in if mod0 \<noteq> Fin 0
            then (if flt wx (Fin 0) \<noteq> flt mod0 (Fin 0) then Inr (fadd mod0 wx) else Inr mod0)
            else Inr (Fin 0)))"

text \<open>\<open>int(x)\<close>, \<open>round(x)\<close> and \<open>math.ceil(x)\<close> of a float.\<close>

fun py_int :: "f64 \<Rightarrow> error + int" where
  "py_int (Fin a) = Inr (trunc a)"
| "py_int NaN = Inl (ValueError Cannot_convert_float_NaN_to_integer)"
| "py_int x = Inl OverflowError"

fun float_round :: "f64 \<Rightarrow> error + int" where
  "float_round (Fin a) = Inr (py_round a)"
| "float_round NaN = Inl (ValueError Cannot_convert_float_NaN_to_integer)"
| "float_round x = Inl OverflowError"

fun math_ceil :: "f64 \<Rightarrow> error + int" where
  "math_ceil (Fin a) = Inr \<lceil>a\<rceil>"
| "math_ceil NaN = Inl (ValueError Cannot_convert_float_NaN_to_integer)"
| "math_ceil x = Inl OverflowError"

text \<open>\<open>max(a, b)\<close>: the second argument only when it is greater.\<close>

definition py_max :: "f64 \<Rightarrow> f64 \<Rightarrow> f64" where
  "py_max a b = (if flt a b then b else a)"

text \<open>\<open>x ** 2\<close>, taken as the correctly rounded square; it raises when it overflows.\<close>

fun float_pow2 :: "f64 \<Rightarrow> error + f64" where
  "float_pow2 (Fin a) =
     (case round64 (a * a) of Fin r \<Rightarrow> Inr (Fin r) | _ \<Rightarrow> Inl OverflowError)"
| "float_pow2 NaN = Inr NaN"
| "float_pow2 x = Inr PInf"

text \<open>\<open>math.sqrt\<close>, which is correctly rounded.\<close>

fun math_sqrt_f64 :: "f64 \<Rightarrow> error + f64" where
  "math_sqrt_f64 (Fin a) =
     (if a < 0 then Inl (ValueError Math_domain_error) else Inr (round64 (sqrt a)))"
| "math_sqrt_f64 NInf = Inl (ValueError Math_domain_error)"
| "math_sqrt_f64 x = Inr x"

text \<open>CPython's \<open>math.isclose\<close> with non-negative tolerances.\<close>

definition math_isclose_f64 :: "f64 \<Rightarrow> f64 \<Rightarrow> f64 \<Rightarrow> f64 \<Rightarrow> bool" where
  "math_isclose_f64 a b rel_tol abs_tol \<longleftrightarrow>
     (if feq a b then True
      else if a = PInf \<or> a = NInf \<or> b = PInf \<or> b = NInf then False
      else (let diff = fabs (fsub b a)
            in fle diff (fabs (fmul rel_tol b)) \<or> fle diff (fabs (fmul rel_tol a))
               \<or> fle diff abs_tol))"

subsection \<open>The finite path of floor division\<close>

text \<open>
  The numbers that \<open>float_div_mod\<close> computes when both operands are finite and the
  divisor \<open>w\<close> is positive: the exact \<open>fmod\<close>, the remainder, the quotient before and
  after it is snapped to an integer.
\<close>

definition fdm_mod :: "real \<Rightarrow> real \<Rightarrow> real" where
  "fdm_mod a w = a - w * real_of_int (trunc (a / w))"

definition fdm_rem :: "real \<Rightarrow> real \<Rightarrow> real" where
  "fdm_rem a w = (if fdm_mod a w < 0 then rne (fdm_mod a w + w) else fdm_mod a w)"

definition fdm_div :: "real \<Rightarrow> real \<Rightarrow> real" where
  "fdm_div a w =
     (let d0 = rne (rne (a - fdm_mod a w) / w)
      in if fdm_mod a w < 0 then rne (d0 - 1) else d0)"

definition fdm_floordiv :: "real \<Rightarrow> real \<Rightarrow> real" where
  "fdm_floordiv a w =
     (let d1 = fdm_div a w
      in if d1 = 0 then 0
         else if 1 / 2 < rne (d1 - real_of_int \<lfloor>d1\<rfloor>)
              then rne (real_of_int \<lfloor>d1\<rfloor> + 1) else real_of_int \<lfloor>d1\<rfloor>)"

subsection \<open>Unit conversion, on binary64 numbers\<close>

text \<open>
  The int constants 144 and 12 are operands of float operations only; their conversion
  to a float is exact, so they are written as floats.  \<open>629 / 799\<close> is a division of two
  ints, rounded once.
\<close>

definition SQ_IN_PER_SQ_FT :: f64 where
  "SQ_IN_PER_SQ_FT = Fin 144"

definition SCALE_IN_PER_PT :: f64 where
  "SCALE_IN_PER_PT = round64 (629 / 799)"

definition SCALE_PT_PER_IN :: f64 where
  "SCALE_PT_PER_IN = fdiv (Fin 1) SCALE_IN_PER_PT"

definition SCALE_PT_PER_FT :: f64 where
  "SCALE_PT_PER_FT = fmul (Fin 12) SCALE_PT_PER_IN"

definition pts_to_ft_in :: "f64 \<Rightarrow> int \<Rightarrow> error + (int \<times> f64)" where
  "pts_to_ft_in pts round_to_frac =
     (let inches = fmul pts SCALE_IN_PER_PT
      in case py_floordiv inches (Fin 12) of
           Inl e \<Rightarrow> Inl e
         | Inr q \<Rightarrow>
         (case py_int q of
            Inl e \<Rightarrow> Inl e
          | Inr ft \<Rightarrow>
          (case float_of_int (ft * 12) of
             Inl e \<Rightarrow> Inl e
           | Inr ft12 \<Rightarrow>
           (let in_rem = fsub inches ft12
            in case int_truediv 1 round_to_frac of
                 Inl e \<Rightarrow> Inl e
               | Inr step \<Rightarrow>
               (case float_truediv in_rem step of
                  Inl e \<Rightarrow> Inl e
                | Inr t \<Rightarrow>
                (case float_round t of
                   Inl e \<Rightarrow> Inl e
                 | Inr k \<Rightarrow>
                 (case float_of_int k of
                    Inl e \<Rightarrow> Inl e
                  | Inr kf \<Rightarrow>
                  (let in_rem2 = fmul kf step
                   in if fle (Fin 12) in_rem2 then Inr (ft + 1, fsub in_rem2 (Fin 12))
                      else Inr (ft, in_rem2)))))))))"

definition ft_in_to_pts :: "int \<Rightarrow> f64 \<Rightarrow> error + f64" where
  "ft_in_to_pts feet inches =
     (case float_of_int (feet * 12) of
        Inl e \<Rightarrow> Inl e
      | Inr f \<Rightarrow> Inr (fmul (fadd f inches) SCALE_PT_PER_IN))"

definition convert_sq_in_to_ft_in :: "f64 \<Rightarrow> error + (int \<times> f64)" where
  "convert_sq_in_to_ft_in square_inches =
     (case py_floordiv square_inches SQ_IN_PER_SQ_FT of
        Inl e \<Rightarrow> Inl e
      | Inr q \<Rightarrow>
          (case py_int q of
             Inl e \<Rightarrow> Inl e
           | Inr sq_ft \<Rightarrow>
               (case py_mod square_inches SQ_IN_PER_SQ_FT of
                  Inl e \<Rightarrow> Inl e
                | Inr rem_in \<Rightarrow> Inr (sq_ft, rem_in))))"

definition panels_needed_for_area_sq_in :: "f64 \<Rightarrow> f64 \<Rightarrow> f64 \<Rightarrow> error + int" where
  "panels_needed_for_area_sq_in total_area_sq_in panel_sq_ft waste_pct =
     (if fle panel_sq_ft (Fin 0) then Inl (ValueError Panel_sq_ft_must_be_positive)
      else
        (let total_sq_ft = fdiv (py_max (Fin 0) total_area_sq_in) SQ_IN_PER_SQ_FT;
             total_sq_ft2 = fmul total_sq_ft (fadd (Fin 1) waste_pct)
         in case float_truediv total_sq_ft2 panel_sq_ft of
              Inl e \<Rightarrow> Inl e
            | Inr t \<Rightarrow> math_ceil t))"

subsection \<open>Openings and sections, over exact numbers\<close>

record Opening =
  width_in :: real
  height_in :: real

definition Opening_area_sq_in :: "Opening \<Rightarrow> real" where
  "Opening_area_sq_in opening = Opening.width_in opening * Opening.height_in opening"

record RectSection =
  width_in :: real
  height_in :: real

definition RectSection_area_sq_in :: "RectSection \<Rightarrow> real" where
  "RectSection_area_sq_in s = RectSection.width_in s * RectSection.height_in s"

record TriSection =
  base_in :: real
  pitch_rise :: real
  pitch_run :: real

text \<open>The constructor \<open>TriSection(base_in, pitch_rise, pitch_run)\<close>.\<close>

definition TriSection_init :: "real \<Rightarrow> real \<Rightarrow> real \<Rightarrow> error + TriSection" where
  "TriSection_init b rise run =
     (if b < 0 then Inl (ValueError Base_in_must_be_nonnegative)
      else Inr \<lparr>base_in = b, pitch_rise = rise, pitch_run = run\<rparr>)"

definition pitch :: "TriSection \<Rightarrow> error + real" where
  "pitch t = py_truediv (pitch_rise t) (pitch_run t)"

definition TriSection_area_sq_in :: "TriSection \<Rightarrow> error + real" where
  "TriSection_area_sq_in t =
     (case pitch t of
        Inl e \<Rightarrow> Inl e
      | Inr p \<Rightarrow> (let h = (base_in t / 2) * p in Inr ((1 / 2) * base_in t * h)))"

definition equivalent_difference :: "TriSection \<Rightarrow> TriSection \<Rightarrow> error + TriSection" where
  "equivalent_difference outer inner =
     (case pitch outer of
        Inl e \<Rightarrow> Inl e
      | Inr p_outer \<Rightarrow>
          (case pitch inner of
             Inl e \<Rightarrow> Inl e
           | Inr p_inner \<Rightarrow>
               if \<not> math_isclose p_outer p_inner (1 / 10 ^ 9) (1 / 10 ^ 12)
               then Inl (ValueError Pitches_must_match)
               else if base_in outer < base_in inner
               then Inl (ValueError Inner_base_must_not_exceed_outer)
               else
                 (case math_sqrt ((base_in outer)\<^sup>2 - (base_in inner)\<^sup>2) of
                    Inl e \<Rightarrow> Inl e
                  | Inr b_eq \<Rightarrow> TriSection_init b_eq (pitch_rise outer) (pitch_run outer))))"

datatype Section = Tri TriSection | Rect RectSection

fun section_area :: "Section \<Rightarrow> error + real" where
  "section_area (Tri t) = TriSection_area_sq_in t"
| "section_area (Rect r) = Inr (RectSection_area_sq_in r)"

subsection \<open>Walls, over exact numbers\<close>

record Wall =
  sections :: "Section list"
  openings :: "Opening list"

definition Wall_init :: Wall where
  "Wall_init = \<lparr>sections = [], openings = []\<rparr>"

definition add_section :: "Wall \<Rightarrow> Section \<Rightarrow> Wall" where
  "add_section w s = w\<lparr>sections := sections w @ [s]\<rparr>"

definition add_opening :: "Wall \<Rightarrow> Opening \<Rightarrow> Wall" where
  "add_opening w opening = w\<lparr>openings := openings w @ [opening]\<rparr>"

text \<open>
  \<open>sum(s.area_sq_in() for s in self.sections)\<close>: the running total starts at 0 and the
  first section whose area raises aborts the sum.
\<close>

fun sum_section_areas :: "real \<Rightarrow> Section list \<Rightarrow> error + real" where
  "sum_section_areas acc [] = Inr acc"
| "sum_section_areas acc (s # ss) =
     (case section_area s of
        Inl e \<Rightarrow> Inl e
      | Inr a \<Rightarrow> sum_section_areas (acc + a) ss)"

fun sum_opening_areas :: "real \<Rightarrow> Opening list \<Rightarrow> real" where
  "sum_opening_areas acc [] = acc"
| "sum_opening_areas acc (x # xs) = sum_opening_areas (acc + Opening_area_sq_in x) xs"

definition section_area_sq_in :: "Wall \<Rightarrow> error + real" where
  "section_area_sq_in w = sum_section_areas 0 (sections w)"

definition opening_area_sq_in :: "Wall \<Rightarrow> real" where
  "opening_area_sq_in w = sum_opening_areas 0 (openings w)"

definition Wall_siding_area_sq_in :: "Wall \<Rightarrow> error + real" where
  "Wall_siding_area_sq_in w =
     (case section_area_sq_in w of
        Inl e \<Rightarrow> Inl e
      | Inr s \<Rightarrow> Inr (s - opening_area_sq_in w))"

text \<open>
  Labels are ASCII strings.  \<open>str.strip()\<close> removes the white-space characters
  (codes 9 to 13, 28 to 32) from both ends; \<open>str.lower()\<close> maps \<open>A\<close> to \<open>Z\<close> onto
  \<open>a\<close> to \<open>z\<close> and leaves every other ASCII character as it is.
\<close>

definition isspace :: "char \<Rightarrow> bool" where
  "isspace c \<longleftrightarrow> (let n = (of_char c :: nat) in (9 \<le> n \<and> n \<le> 13) \<or> (28 \<le> n \<and> n \<le> 32))"

definition strip :: "string \<Rightarrow> string" where
  "strip s = rev (dropWhile isspace (rev (dropWhile isspace s)))"

definition lower_char :: "char \<Rightarrow> char" where
  "lower_char c = (let n = (of_char c :: nat) in if 65 \<le> n \<and> n \<le> 90 then char_of (n + 32) else c)"

definition lower :: "string \<Rightarrow> string" where
  "lower s = map lower_char s"

definition DIR_MAP :: "(string \<times> string) list" where
  "DIR_MAP =
     [(''n'', ''north''), (''north'', ''north''),
      (''s'', ''south''), (''south'', ''south''),
      (''e'', ''east''), (''east'', ''east''),
      (''w'', ''west''), (''west'', ''west''),
      (''front'', ''front''), (''back'', ''back''),
      (''left'', ''left''), (''right'', ''right'')]"

text \<open>\<open>d.get(k, default)\<close> and \<open>d[k] = v\<close> on a dictionary kept in insertion order.\<close>

definition dict_get :: "('k \<times> 'v) list \<Rightarrow> 'k \<Rightarrow> 'v \<Rightarrow> 'v" where
  "dict_get d k dflt = (case map_of d k of None \<Rightarrow> dflt | Some v \<Rightarrow> v)"

fun dict_set :: "('k \<times> 'v) list \<Rightarrow> 'k \<Rightarrow> 'v \<Rightarrow> ('k \<times> 'v) list" where
  "dict_set [] k v = [(k, v)]"
| "dict_set ((k', v') # d) k v = (if k' = k then (k, v) # d else (k', v') # dict_set d k v)"

definition normalize_direction :: "string \<Rightarrow> string" where
  "normalize_direction label =
     (let key = lower (strip (if label = [] then [] else label))
      in dict_get DIR_MAP key key)"

subsection \<open>Oriented walls and the container, over exact numbers\<close>

record OrientedWall =
  wall :: Wall
  direction :: string

definition OrientedWall_init :: "Wall \<Rightarrow> string \<Rightarrow> OrientedWall" where
  "OrientedWall_init w d = \<lparr>wall = w, direction = normalize_direction d\<rparr>"

definition OrientedWall_siding_area_sq_in :: "OrientedWall \<Rightarrow> error + real" where
  "OrientedWall_siding_area_sq_in ow =
     (case Wall_siding_area_sq_in (wall ow) of
        Inl e \<Rightarrow> Inl e
      | Inr a \<Rightarrow> Inr (max 0 a))"

record WallContainer =
  walls :: "OrientedWall list"

definition WallContainer_init :: WallContainer where
  "WallContainer_init = \<lparr>walls = []\<rparr>"

definition add_wall :: "WallContainer \<Rightarrow> Wall \<Rightarrow> string \<Rightarrow> WallContainer" where
  "add_wall c w d = c\<lparr>walls := walls c @ [OrientedWall_init w d]\<rparr>"

text \<open>The loop of \<open>total_siding_area_sq_in\<close>, with the running total \<open>tot\<close>.\<close>

fun total_loop :: "string set option \<Rightarrow> real \<Rightarrow> OrientedWall list \<Rightarrow> error + real" where
  "total_loop dirs tot [] = Inr tot"
| "total_loop dirs tot (ow # ows) =
     (if (case dirs of None \<Rightarrow> True | Some ds \<Rightarrow> direction ow \<in> ds)
      then (case OrientedWall_siding_area_sq_in ow of
              Inl e \<Rightarrow> Inl e
            | Inr a \<Rightarrow> total_loop dirs (tot + a) ows)
      else total_loop dirs tot ows)"

definition total_siding_area_sq_in :: "WallContainer \<Rightarrow> string list option \<Rightarrow> error + real" where
  "total_siding_area_sq_in c directions =
     (let dirs = (case directions of
                    None \<Rightarrow> None
                  | Some ds \<Rightarrow> Some (set (map normalize_direction ds)))
      in total_loop dirs 0 (walls c))"

text \<open>The loop of \<open>breakdown_by_direction\<close>, with the dictionary \<open>out\<close> built so far.\<close>

fun breakdown_loop ::
  "(string \<times> real) list \<Rightarrow> OrientedWall list \<Rightarrow> error + (string \<times> real) list" where
  "breakdown_loop out [] = Inr out"
| "breakdown_loop out (ow # ows) =
     (case OrientedWall_siding_area_sq_in ow of
        Inl e \<Rightarrow> Inl e
      | Inr a \<Rightarrow>
          breakdown_loop (dict_set out (direction ow) (dict_get out (direction ow) 0 + a)) ows)"

definition breakdown_by_direction :: "WallContainer \<Rightarrow> error + (string \<times> real) list" where
  "breakdown_by_direction c = breakdown_loop [] (walls c)"

subsection \<open>Example values\<close>

definition wall_over_cut :: Wall where
  "wall_over_cut =
     \<lparr>sections = [Rect \<lparr>RectSection.width_in = 10, RectSection.height_in = 10\<rparr>],
      openings = [\<lparr>Opening.width_in = 20, Opening.height_in = 10\<rparr>]\<rparr>"

definition wall_plain :: Wall where
  "wall_plain =
     \<lparr>sections = [Rect \<lparr>RectSection.width_in = 12, RectSection.height_in = 8\<rparr>],
      openings = []\<rparr>"

definition tri_outer :: TriSection where
  "tri_outer = \<lparr>base_in = 3224 / 10, pitch_rise = 6, pitch_run = 12\<rparr>"

definition tri_inner :: TriSection where
  "tri_inner = \<lparr>base_in = 2136 / 10, pitch_rise = 6, pitch_run = 12\<rparr>"

definition tri_five :: TriSection where
  "tri_five = \<lparr>base_in = 5, pitch_rise = 6, pitch_run = 12\<rparr>"

definition tri_three :: TriSection where
  "tri_three = \<lparr>base_in = 3, pitch_rise = 6, pitch_run = 12\<rparr>"

definition tri_three_run10 :: TriSection where
  "tri_three_run10 = \<lparr>base_in = 3, pitch_rise = 6, pitch_run = 10\<rparr>"

definition tri_five_run0 :: TriSection where
  "tri_five_run0 = \<lparr>base_in = 5, pitch_rise = 6, pitch_run = 0\<rparr>"

definition tri_three_run0 :: TriSection where
  "tri_three_run0 = \<lparr>base_in = 3, pitch_rise = 6, pitch_run = 0\<rparr>"

subsection \<open>Sections and walls, on binary64 numbers\<close>

text \<open>
  The same classes with float fields.  The float algorithm of the built-in \<open>sum\<close> differs
  between Python versions (plain addition from the left, or compensated summation), so
  it is the parameter \<open>py_sum\<close>; \<open>sum_left\<close> is the plain one.
\<close>

record Opening64 =
  width64 :: f64
  height64 :: f64

definition Opening64_area_sq_in :: "Opening64 \<Rightarrow> f64" where
  "Opening64_area_sq_in opening = fmul (width64 opening) (height64 opening)"

record RectSection64 =
  rect_width64 :: f64
  rect_height64 :: f64

definition RectSection64_area_sq_in :: "RectSection64 \<Rightarrow> f64" where
  "RectSection64_area_sq_in s = fmul (rect_width64 s) (rect_height64 s)"

record TriSection64 =
  base64 :: f64
  rise64 :: f64
  run64 :: f64

definition TriSection64_init :: "f64 \<Rightarrow> f64 \<Rightarrow> f64 \<Rightarrow> error + TriSection64" where
  "TriSection64_init b rise run =
     (if flt b (Fin 0) then Inl (ValueError Base_in_must_be_nonnegative)
      else Inr \<lparr>base64 = b, rise64 = rise, run64 = run\<rparr>)"

definition pitch64 :: "TriSection64 \<Rightarrow> error + f64" where
  "pitch64 t = float_truediv (rise64 t) (run64 t)"

definition TriSection64_area_sq_in :: "TriSection64 \<Rightarrow> error + f64" where
  "TriSection64_area_sq_in t =
     (case pitch64 t of
        Inl e \<Rightarrow> Inl e
      | Inr p \<Rightarrow>
          (let h = fmul (fdiv (base64 t) (Fin 2)) p
           in Inr (fmul (fmul (Fin (1 / 2)) (base64 t)) h)))"

definition REL_TOL :: f64 where
  "REL_TOL = round64 (1 / 10 ^ 9)"

definition ABS_TOL :: f64 where
  "ABS_TOL = round64 (1 / 10 ^ 12)"

definition equivalent_difference64 :: "TriSection64 \<Rightarrow> TriSection64 \<Rightarrow> error + TriSection64" where
  "equivalent_difference64 outer inner =
     (case pitch64 outer of
        Inl e \<Rightarrow> Inl e
      | Inr p_outer \<Rightarrow>
          (case pitch64 inner of
             Inl e \<Rightarrow> Inl e
           | Inr p_inner \<Rightarrow>
               if \<not> math_isclose_f64 p_outer p_inner REL_TOL ABS_TOL
               then Inl (ValueError Pitches_must_match)
               else if flt (base64 outer) (base64 inner)
               then Inl (ValueError Inner_base_must_not_exceed_outer)
               else
                 (case float_pow2 (base64 outer) of
                    Inl e \<Rightarrow> Inl e
                  | Inr sq_outer \<Rightarrow>
                      (case float_pow2 (base64 inner) of
                         Inl e \<Rightarrow> Inl e
                       | Inr sq_inner \<Rightarrow>
                           (case math_sqrt_f64 (fsub sq_outer sq_inner) of
                              Inl e \<Rightarrow> Inl e
                            | Inr b_eq \<Rightarrow>
                                TriSection64_init b_eq (rise64 outer) (run64 outer))))))"

datatype Section64 = Tri64 TriSection64 | Rect64 RectSection64

fun section64_area :: "Section64 \<Rightarrow> error + f64" where
  "section64_area (Tri64 t) = TriSection64_area_sq_in t"
| "section64_area (Rect64 r) = Inr (RectSection64_area_sq_in r)"

record Wall64 =
  sections64 :: "Section64 list"
  openings64 :: "Opening64 list"

text \<open>The areas that the generator hands to \<open>sum\<close>; the first one that raises ends it.\<close>

fun section64_areas :: "Section64 list \<Rightarrow> error + f64 list" where
  "section64_areas [] = Inr []"
| "section64_areas (s # ss) =
     (case section64_area s of
        Inl e \<Rightarrow> Inl e
      | Inr a \<Rightarrow> (case section64_areas ss of Inl e \<Rightarrow> Inl e | Inr as \<Rightarrow> Inr (a # as)))"

definition sum_left :: "f64 list \<Rightarrow> f64" where
  "sum_left xs = foldl fadd (Fin 0) xs"

definition Wall64_section_area_sq_in :: "(f64 list \<Rightarrow> f64) \<Rightarrow> Wall64 \<Rightarrow> error + f64" where
  "Wall64_section_area_sq_in py_sum w =
     (case section64_areas (sections64 w) of Inl e \<Rightarrow> Inl e | Inr as \<Rightarrow> Inr (py_sum as))"

definition Wall64_opening_area_sq_in :: "(f64 list \<Rightarrow> f64) \<Rightarrow> Wall64 \<Rightarrow> f64" where
  "Wall64_opening_area_sq_in py_sum w = py_sum (map Opening64_area_sq_in (openings64 w))"

definition Wall64_siding_area_sq_in :: "(f64 list \<Rightarrow> f64) \<Rightarrow> Wall64 \<Rightarrow> error + f64" where
  "Wall64_siding_area_sq_in py_sum w =
     (case Wall64_section_area_sq_in py_sum w of
        Inl e \<Rightarrow> Inl e
      | Inr s \<Rightarrow> Inr (fsub s (Wall64_opening_area_sq_in py_sum w)))"

definition siding_area_ft_in :: "(f64 list \<Rightarrow> f64) \<Rightarrow> Wall64 \<Rightarrow> error + (int \<times> f64)" where
  "siding_area_ft_in py_sum w =
     (case Wall64_siding_area_sq_in py_sum w of
        Inl e \<Rightarrow> Inl e
      | Inr a \<Rightarrow> convert_sq_in_to_ft_in a)"

definition panels_needed :: "(f64 list \<Rightarrow> f64) \<Rightarrow> Wall64 \<Rightarrow> f64 \<Rightarrow> f64 \<Rightarrow> error + int" where
  "panels_needed py_sum w panel_sq_ft waste_pct =
     (case Wall64_siding_area_sq_in py_sum w of
        Inl e \<Rightarrow> Inl e
      | Inr a \<Rightarrow> panels_needed_for_area_sq_in a panel_sq_ft waste_pct)"

definition wall64_over_cut :: Wall64 where
  "wall64_over_cut =
     \<lparr>sections64 = [Rect64 \<lparr>rect_width64 = Fin 10, rect_height64 = Fin 10\<rparr>],
      openings64 = [\<lparr>width64 = Fin 20, height64 = Fin 10\<rparr>]\<rparr>"

text \<open>
  The floats \<open>0.1\<close>, \<open>0.2\<close> and \<open>0.3\<close>, and a wall with a section of \<open>0.3\<close> by \<open>1.0\<close> and
  openings of \<open>0.1\<close> by \<open>1.0\<close> and \<open>0.2\<close> by \<open>1.0\<close>.
\<close>

definition float_0_1 :: real where
  "float_0_1 = 3602879701896397 / 2 ^ 55"

definition float_0_2 :: real where
  "float_0_2 = 3602879701896397 / 2 ^ 54"

definition float_0_3 :: real where
  "float_0_3 = 5404319552844595 / 2 ^ 54"

definition wall64_tenths :: Wall64 where
  "wall64_tenths =
     \<lparr>sections64 = [Rect64 \<lparr>rect_width64 = Fin float_0_3, rect_height64 = Fin 1\<rparr>],
      openings64 = [\<lparr>width64 = Fin float_0_1, height64 = Fin 1\<rparr>,
                    \<lparr>width64 = Fin float_0_2, height64 = Fin 1\<rparr>]\<rparr>"

section \<open>Properties\<close>

subsection \<open>Facts about the exact-number model\<close>

lemma sum_section_areas_Inr:
  "list_all2 (\<lambda>s a. section_area s = Inr a) ss as \<Longrightarrow>
   sum_section_areas acc ss = Inr (acc + sum_list as)"
  by (induction ss as arbitrary: acc rule: list_all2_induct) (simp_all add: add.assoc)

lemma sum_opening_areas_eq:
  "sum_opening_areas acc xs = acc + sum_list (map Opening_area_sq_in xs)"
  by (induction xs arbitrary: acc) (simp_all add: add.assoc)

lemma wall_over_cut_siding: "Wall_siding_area_sq_in wall_over_cut = Inr (- 100)"
  by (simp add: wall_over_cut_def Wall_siding_area_sq_in_def section_area_sq_in_def
      opening_area_sq_in_def RectSection_area_sq_in_def Opening_area_sq_in_def)

lemma sum_list_dict_set:
  "sum_list (map snd (dict_set d k (dict_get d k 0 + a))) = sum_list (map snd d) + (a::real)"
  by (induction d) (auto simp: dict_get_def)

lemma breakdown_loop_total_loop:
  "(case breakdown_loop out ows of Inl e \<Rightarrow> Inl e | Inr d \<Rightarrow> Inr (sum_list (map snd d)))
     = total_loop None (sum_list (map snd out)) ows"
  by (induction ows arbitrary: out) (simp_all add: sum_list_dict_set split: sum.splits)

lemma wall_plain_siding: "Wall_siding_area_sq_in wall_plain = Inr 96"
  by (simp add: wall_plain_def Wall_siding_area_sq_in_def section_area_sq_in_def
      opening_area_sq_in_def RectSection_area_sq_in_def)

lemma wall_siding_sum:
  assumes "list_all2 (\<lambda>s a. section_area s = Inr a) (sections w) as"
  shows "Wall_siding_area_sq_in w =
           Inr (sum_list as - sum_list (map Opening_area_sq_in (openings w)))"
  using sum_section_areas_Inr [OF assms, of 0]
  by (simp add: Wall_siding_area_sq_in_def section_area_sq_in_def opening_area_sq_in_def
      sum_opening_areas_eq)

lemma TriSection_init_Inr:
  "TriSection_init b rise run = Inr t \<longleftrightarrow>
     0 \<le> b \<and> t = \<lparr>base_in = b, pitch_rise = rise, pitch_run = run\<rparr>"
  by (auto simp: TriSection_init_def)

lemma pitch_Inr: "pitch t = Inr p \<longleftrightarrow> pitch_run t \<noteq> 0 \<and> p = pitch_rise t / pitch_run t"
  by (auto simp: pitch_def py_truediv_def)

lemma pitch_Inl: "pitch t = Inl e \<longleftrightarrow> pitch_run t = 0 \<and> e = ZeroDivisionError"
  by (auto simp: pitch_def py_truediv_def)

lemma math_isclose_refl: "math_isclose p p (1 / 10 ^ 9) (1 / 10 ^ 12)"
  by (simp add: math_isclose_def)

lemma sq_diff_nonneg: "0 \<le> i \<Longrightarrow> i \<le> o' \<Longrightarrow> 0 \<le> o'\<^sup>2 - i\<^sup>2" for i o' :: real
  by (simp add: power_mono)

text \<open>The whole case analysis of \<open>equivalent_difference\<close> for an inner base that is not negative.\<close>

lemma equivalent_difference_cases:
  assumes "0 \<le> base_in inner"
  shows "equivalent_difference outer inner =
     (if pitch_run outer = 0 \<or> pitch_run inner = 0 then Inl ZeroDivisionError
      else if \<not> math_isclose (pitch_rise outer / pitch_run outer)
                  (pitch_rise inner / pitch_run inner) (1 / 10 ^ 9) (1 / 10 ^ 12)
      then Inl (ValueError Pitches_must_match)
      else if base_in outer < base_in inner
      then Inl (ValueError Inner_base_must_not_exceed_outer)
      else Inr \<lparr>base_in = sqrt ((base_in outer)\<^sup>2 - (base_in inner)\<^sup>2),
                pitch_rise = pitch_rise outer, pitch_run = pitch_run outer\<rparr>)"
proof -
  have "base_in inner \<le> base_in outer \<Longrightarrow> \<not> (base_in outer)\<^sup>2 - (base_in inner)\<^sup>2 < 0"
    using sq_diff_nonneg [OF assms] by (simp add: not_less)
  then show ?thesis
    by (auto simp: equivalent_difference_def pitch_def py_truediv_def math_sqrt_def
        TriSection_init_def not_less)
qed

lemma sqrt_16: "sqrt 16 = 4"
  by (rule real_sqrt_unique) simp_all

lemma tri_area_formula:
  "pitch_run t \<noteq> 0 \<Longrightarrow>
   TriSection_area_sq_in t = Inr ((base_in t)\<^sup>2 * (pitch_rise t / pitch_run t) / 4)"
  by (simp add: TriSection_area_sq_in_def pitch_def py_truediv_def power2_eq_square)

lemma tri_outer_inner_result:
  "equivalent_difference tri_outer tri_inner =
     Inr \<lparr>base_in = sqrt (583168 / 10), pitch_rise = 6, pitch_run = 12\<rparr>"
proof -
  have "0 \<le> base_in tri_inner" by (simp add: tri_inner_def)
  from equivalent_difference_cases [OF this, of tri_outer] show ?thesis
    by (simp add: tri_outer_def tri_inner_def math_isclose_def power2_eq_square)
qed

lemma sqrt_583168_bounds: "24148 / 100 < sqrt (583168 / 10)" "sqrt (583168 / 10) < 24149 / 100"
  by (rule real_less_rsqrt, simp add: power2_eq_square)
     (rule real_less_lsqrt, simp_all add: power2_eq_square)

subsection \<open>Facts about the breakdown dictionary\<close>

lemma dict_set_keys:
  "map fst (dict_set d k v) = (if k \<in> set (map fst d) then map fst d else map fst d @ [k])"
  by (induction d) (auto simp: rev_image_eqI)

lemma dict_set_distinct: "distinct (map fst d) \<Longrightarrow> distinct (map fst (dict_set d k v))"
  by (simp add: dict_set_keys)

lemma dict_get_dict_set:
  "dict_get (dict_set d k v) k' dflt = (if k' = k then v else dict_get d k' dflt)"
  by (induction d) (auto simp: dict_get_def)

lemma breakdown_loop_append:
  "breakdown_loop out (ws @ ws') =
     (case breakdown_loop out ws of Inl e \<Rightarrow> Inl e | Inr d \<Rightarrow> breakdown_loop d ws')"
  by (induction ws arbitrary: out) (simp_all split: sum.splits)

lemma breakdown_loop_distinct:
  "distinct (map fst out) \<Longrightarrow> breakdown_loop out ws = Inr d \<Longrightarrow> distinct (map fst d)"
proof (induction ws arbitrary: out)
  case Nil
  then show ?case by simp
next
  case (Cons ow ws)
  from Cons.prems(2) obtain a where
    "breakdown_loop (dict_set out (direction ow) (dict_get out (direction ow) 0 + a)) ws = Inr d"
    by (auto split: sum.splits)
  with Cons.IH dict_set_distinct [OF Cons.prems(1)] show ?case by blast
qed

lemma breakdown_distinct:
  "breakdown_by_direction c = Inr d \<Longrightarrow> distinct (map fst d)"
  using breakdown_loop_distinct [of "[]" "walls c" d] by (simp add: breakdown_by_direction_def)

lemma breakdown_add_two:
  assumes "breakdown_by_direction c = Inr d"
    and "Wall_siding_area_sq_in w1 = Inr a1" "Wall_siding_area_sq_in w2 = Inr a2"
    and "normalize_direction l1 = k" "normalize_direction l2 = k"
  shows "\<exists>d'. breakdown_by_direction (add_wall (add_wall c w1 l1) w2 l2) = Inr d'
           \<and> distinct (map fst d') \<and> k \<in> set (map fst d')
           \<and> dict_get d' k 0 = dict_get d k 0 + max 0 a1 + max 0 a2"
proof -
  let ?d1 = "dict_set d k (dict_get d k 0 + max 0 a1)"
  let ?d2 = "dict_set ?d1 k (dict_get ?d1 k 0 + max 0 a2)"
  have res: "breakdown_by_direction (add_wall (add_wall c w1 l1) w2 l2) = Inr ?d2"
    using assms
    by (simp add: breakdown_by_direction_def add_wall_def breakdown_loop_append
        OrientedWall_init_def OrientedWall_siding_area_sq_in_def)
  have "distinct (map fst ?d2)" by (rule breakdown_distinct [OF res])
  moreover have "k \<in> set (map fst ?d2)" by (simp add: dict_set_keys)
  moreover have "dict_get ?d2 k 0 = dict_get d k 0 + max 0 a1 + max 0 a2"
    by (simp add: dict_get_dict_set)
  ultimately show ?thesis using res by blast
qed

lemma breakdown_two_walls:
  assumes "Wall_siding_area_sq_in w1 = Inr a1" "Wall_siding_area_sq_in w2 = Inr a2"
    and "normalize_direction l1 = k" "normalize_direction l2 = k"
  shows "breakdown_by_direction (add_wall (add_wall WallContainer_init w1 l1) w2 l2) =
           Inr [(k, max 0 a1 + max 0 a2)]"
  using assms
  by (simp add: breakdown_by_direction_def add_wall_def WallContainer_init_def
      OrientedWall_init_def OrientedWall_siding_area_sq_in_def dict_get_def)

subsection \<open>Facts about rounding\<close>

lemma py_round_error: "\<bar>real_of_int (py_round x) - x\<bar> \<le> 1 / 2"
  unfolding py_round_def Let_def by (auto; linarith)

lemma py_round_of_int: "py_round (real_of_int k) = k"
  by (simp add: py_round_def)

lemma py_round_mono: "x \<le> y \<Longrightarrow> py_round x \<le> py_round y"
proof (rule ccontr)
  assume xy: "x \<le> y" and "\<not> py_round x \<le> py_round y"
  then have gt: "py_round y + 1 \<le> py_round x" by simp
  then have "real_of_int (py_round y) + 1 \<le> real_of_int (py_round x)"
    by (metis of_int_1 of_int_add of_int_le_iff)
  with py_round_error [of x] py_round_error [of y] xy have "x = y" by linarith
  with gt show False by simp
qed

lemma py_round_minus: "py_round (- x) = - py_round x"
proof -
  have "py_round (- x) = - py_round x" if "x \<in> \<int>" for x
    using that by (auto simp: py_round_of_int elim!: Ints_cases simp flip: of_int_minus)
  moreover have "py_round (- x) = - py_round x" if "x \<notin> \<int>"
  proof -
    have "x \<noteq> real_of_int \<lfloor>x\<rfloor>"
      using that by (metis Ints_of_int)
    then have f: "\<lfloor>- x\<rfloor> = - \<lfloor>x\<rfloor> - 1"
      by (simp add: floor_minus ceiling_altdef)
    show ?thesis
      unfolding py_round_def Let_def f by (auto; linarith)
  qed
  ultimately show ?thesis by blast
qed

lemma two_powi_pos: "0 < (2::real) powi e"
  by simp

lemma two_powi_mono: "a \<le> b \<Longrightarrow> (2::real) powi a \<le> 2 powi b"
  by (rule power_int_increasing) simp_all

lemma two_powi_less_cancel: "(2::real) powi a < 2 powi b \<Longrightarrow> a < b"
  by (meson linorder_not_less numeral_le_one_iff power_int_increasing semiring_norm(69) one_le_numeral)

lemma expo_bounds:
  assumes "x \<noteq> 0"
  shows "2 powi expo x \<le> \<bar>x\<bar>" and "\<bar>x\<bar> < 2 powi (expo x + 1)"
proof -
  define y where "y = \<bar>x\<bar>"
  have ypos: "0 < y" using assms by (simp add: y_def)
  have "2 powi expo x \<le> y \<and> y < 2 powi (expo x + 1)"
  proof (cases "1 \<le> y")
    case True
    define n where "n = \<lfloor>y\<rfloor>"
    have npos: "0 < n" using True by (simp add: n_def)
    have e: "expo x = bitlen n - 1"
      using True by (simp add: expo_def y_def n_def Let_def)
    have b1: "1 \<le> bitlen n" using npos by (simp add: bitlen_alt_def)
    from bitlen_bounds [OF npos] have lo: "2 ^ nat (bitlen n - 1) \<le> n" and hi: "n < 2 ^ nat (bitlen n)"
      by simp_all
    have "(2::real) powi (bitlen n - 1) = 2 ^ nat (bitlen n - 1)"
      using b1 by (simp add: power_int_def)
    also have "\<dots> \<le> real_of_int n"
      using lo by (metis of_int_le_iff of_int_numeral of_int_power)
    also have "\<dots> \<le> y" by (simp add: n_def)
    finally have 1: "2 powi expo x \<le> y" by (simp add: e)
    have "n + 1 \<le> 2 ^ nat (bitlen n)" using hi by simp
    then have "real_of_int (n + 1) \<le> 2 ^ nat (bitlen n)"
      by (metis of_int_le_iff of_int_numeral of_int_power)
    moreover have "y < real_of_int (n + 1)" unfolding n_def by linarith
    moreover have "(2::real) powi (bitlen n) = 2 ^ nat (bitlen n)"
      using b1 by (simp add: power_int_def)
    ultimately have "y < 2 powi (bitlen n)" by linarith
    then have "y < 2 powi (expo x + 1)" by (simp add: e)
    with 1 show ?thesis by simp
  next
    case False
    define n where "n = \<lceil>1 / y\<rceil>"
    have "1 < 1 / y" using False ypos by simp
    then have n2: "2 \<le> n" unfolding n_def by linarith
    define m where "m = n - 1"
    have mpos: "0 < m" using n2 by (simp add: m_def)
    have e: "expo x = - bitlen m"
      using False by (simp add: expo_def y_def n_def m_def Let_def)
    have b1: "1 \<le> bitlen m" using mpos by (simp add: bitlen_alt_def)
    from bitlen_bounds [OF mpos] have lo: "2 ^ nat (bitlen m - 1) \<le> m" and hi: "m < 2 ^ nat (bitlen m)"
      by simp_all
    have p: "(2::real) powi (bitlen m) = 2 ^ nat (bitlen m)"
      using b1 by (simp add: power_int_def)
    have p1: "(2::real) powi (bitlen m - 1) = 2 ^ nat (bitlen m - 1)"
      using b1 by (simp add: power_int_def)
    have "n \<le> 2 ^ nat (bitlen m)" using hi by (simp add: m_def)
    then have "real_of_int n \<le> 2 ^ nat (bitlen m)"
      by (metis of_int_le_iff of_int_numeral of_int_power)
    moreover have "1 / y \<le> real_of_int n" by (simp add: n_def)
    ultimately have "1 / y \<le> 2 ^ nat (bitlen m)" by linarith
    then have "1 / y \<le> 2 powi (bitlen m)" by (simp only: p)
    then have "1 \<le> 2 powi (bitlen m) * y" using ypos by (simp add: field_simps)
    then have 1: "2 powi expo x \<le> y"
      by (simp add: e power_int_minus field_simps)
    have "real_of_int m < 1 / y" unfolding m_def n_def by linarith
    moreover have "2 ^ nat (bitlen m - 1) \<le> real_of_int m"
      using lo by (metis of_int_le_iff of_int_numeral of_int_power)
    ultimately have "2 powi (bitlen m - 1) < 1 / y" unfolding p1 by linarith
    then have "2 powi (bitlen m - 1) * y < 1" using ypos by (simp add: field_simps)
    moreover have "expo x + 1 = - (bitlen m - 1)" by (simp add: e)
    ultimately have "y < 2 powi (expo x + 1)"
      by (simp only: power_int_minus) (simp add: field_simps)
    with 1 show ?thesis by simp
  qed
  then show "2 powi expo x \<le> \<bar>x\<bar>" and "\<bar>x\<bar> < 2 powi (expo x + 1)"
    by (simp_all add: y_def)
qed

lemma expo_unique:
  assumes "2 powi e \<le> \<bar>x\<bar>" and "\<bar>x\<bar> < 2 powi (e + 1)"
  shows "expo x = e"
proof -
  have "x \<noteq> 0" using assms(1) two_powi_pos [of e] by fastforce
  note b = expo_bounds [OF this]
  have "2 powi e < (2::real) powi (expo x + 1)" using assms(1) b(2) by linarith
  then have "e < expo x + 1" by (rule two_powi_less_cancel)
  moreover have "2 powi expo x < (2::real) powi (e + 1)" using assms(2) b(1) by linarith
  then have "expo x < e + 1" by (rule two_powi_less_cancel)
  ultimately show ?thesis by simp
qed

lemma expo_minus: "expo (- x) = expo x"
  by (simp add: expo_def)

lemma ulp_minus: "ulp (- x) = ulp x"
  by (simp add: ulp_def expo_minus)

lemma ulp_pos: "0 < ulp x"
  by (simp add: ulp_def)

lemma rne_0: "rne 0 = 0"
  by (simp add: rne_def py_round_def)

lemma rne_minus: "rne (- x) = - rne x"
  by (simp add: rne_def ulp_minus py_round_minus)

lemma rne_error: "\<bar>rne x - x\<bar> \<le> ulp x / 2"
proof -
  have "rne x - x = (real_of_int (py_round (x / ulp x)) - x / ulp x) * ulp x"
    using ulp_pos [of x] by (simp add: rne_def field_simps)
  then have "\<bar>rne x - x\<bar> = \<bar>real_of_int (py_round (x / ulp x)) - x / ulp x\<bar> * ulp x"
    using ulp_pos [of x] by (simp add: abs_mult)
  also have "\<dots> \<le> (1 / 2) * ulp x"
    using py_round_error [of "x / ulp x"] ulp_pos [of x] by (intro mult_right_mono) simp_all
  finally show ?thesis by simp
qed

lemma rne_nonneg: "0 \<le> x \<Longrightarrow> 0 \<le> rne x"
proof -
  assume "0 \<le> x"
  then have "0 \<le> x / ulp x" using ulp_pos [of x] by simp
  then have "py_round 0 \<le> py_round (x / ulp x)" by (rule py_round_mono)
  then have "0 \<le> py_round (x / ulp x)" by (simp add: py_round_def)
  then show ?thesis using ulp_pos [of x] by (simp add: rne_def)
qed


lemma scaled_bounds:
  assumes "0 < x"
  shows "x / ulp x < 2 ^ 53" and "- 1022 \<le> expo x \<Longrightarrow> 2 ^ 52 \<le> x / ulp x"
proof -
  have x0: "x \<noteq> 0" using assms by simp
  have "x < 2 powi (expo x + 1)" using expo_bounds(2) [OF x0] assms by simp
  also have "\<dots> \<le> 2 powi (max (expo x) (- 1022) + 1)" by (rule two_powi_mono) simp
  also have "\<dots> = 2 ^ 53 * ulp x"
    by (simp add: ulp_def power_int_diff power_int_add)
  finally show "x / ulp x < 2 ^ 53" using ulp_pos [of x] by (simp add: field_simps)
  assume n: "- 1022 \<le> expo x"
  have "2 ^ 52 * ulp x = 2 powi (expo x)"
    using n by (simp add: ulp_def power_int_diff max_def)
  also have "\<dots> \<le> x" using expo_bounds(1) [OF x0] assms by simp
  finally show "2 ^ 52 \<le> x / ulp x" using ulp_pos [of x] by (simp add: field_simps)
qed

lemma py_round_le: "x \<le> real_of_int n \<Longrightarrow> py_round x \<le> n"
  using py_round_mono [of x "real_of_int n"] by (simp add: py_round_of_int)

lemma py_round_ge: "real_of_int n \<le> x \<Longrightarrow> n \<le> py_round x"
  using py_round_mono [of "real_of_int n" x] by (simp add: py_round_of_int)

lemma rne_upper:
  assumes "0 < x"
  shows "rne x \<le> 2 powi (max (expo x) (- 1022) + 1)"
proof -
  have "x / ulp x \<le> real_of_int (2 ^ 53)" using scaled_bounds(1) [OF assms] by simp
  then have "py_round (x / ulp x) \<le> 2 ^ 53" by (rule py_round_le)
  then have "real_of_int (py_round (x / ulp x)) \<le> 2 ^ 53"
    by (metis of_int_le_iff of_int_numeral of_int_power)
  then have "rne x \<le> 2 ^ 53 * ulp x"
    unfolding rne_def using ulp_pos [of x] by (intro mult_right_mono) simp_all
  also have "\<dots> = 2 powi (max (expo x) (- 1022) + 1)"
    by (simp add: ulp_def power_int_diff power_int_add)
  finally show ?thesis .
qed

lemma rne_lower:
  assumes "0 < x" and "- 1022 \<le> expo x"
  shows "2 powi (expo x) \<le> rne x"
proof -
  have "real_of_int (2 ^ 52) \<le> x / ulp x" using scaled_bounds(2) [OF assms] by simp
  then have "2 ^ 52 \<le> py_round (x / ulp x)" by (rule py_round_ge)
  then have "2 ^ 52 \<le> real_of_int (py_round (x / ulp x))"
    by (metis of_int_le_iff of_int_numeral of_int_power)
  then have "2 ^ 52 * ulp x \<le> rne x"
    unfolding rne_def using ulp_pos [of x] by (intro mult_right_mono) simp_all
  moreover have "2 ^ 52 * ulp x = 2 powi (expo x)"
    using assms(2) by (simp add: ulp_def power_int_diff max_def)
  ultimately show ?thesis by simp
qed

lemma expo_mono:
  assumes "0 < x" and "x \<le> y"
  shows "expo x \<le> expo y"
proof -
  have "2 powi expo x \<le> x" using expo_bounds(1) [of x] assms(1) by simp
  also have "\<dots> \<le> y" by fact
  also have "\<dots> < 2 powi (expo y + 1)" using expo_bounds(2) [of y] assms by simp
  finally have "expo x < expo y + 1" by (rule two_powi_less_cancel)
  then show ?thesis by simp
qed

lemma rne_mono_pos:
  assumes "0 < x" and "x \<le> y"
  shows "rne x \<le> rne y"
proof -
  have ypos: "0 < y" using assms by simp
  let ?ex = "max (expo x) (- 1022)" and ?ey = "max (expo y) (- 1022)"
  have le: "?ex \<le> ?ey" using expo_mono [OF assms] by simp
  show ?thesis
  proof (cases "?ex = ?ey")
    case True
    then have u: "ulp x = ulp y" by (simp add: ulp_def)
    have "x / ulp y \<le> y / ulp y" using assms(2) ulp_pos [of y] by (simp add: divide_right_mono)
    then have "py_round (x / ulp y) \<le> py_round (y / ulp y)" by (rule py_round_mono)
    then show ?thesis
      unfolding rne_def u using ulp_pos [of y] by (intro mult_right_mono) simp_all
  next
    case False
    with le have lt: "?ex < ?ey" by linarith
    then have ny: "- 1022 \<le> expo y" and ey: "?ey = expo y" by linarith+
    have "rne x \<le> 2 powi (?ex + 1)" by (rule rne_upper [OF assms(1)])
    also have "\<dots> \<le> 2 powi (expo y)" using lt ey by (intro two_powi_mono) linarith
    also have "\<dots> \<le> rne y" by (rule rne_lower [OF ypos ny])
    finally show ?thesis .
  qed
qed

lemma rne_mono:
  assumes "x \<le> y"
  shows "rne x \<le> rne y"
proof -
  consider "0 < x" | "x \<le> 0" "0 \<le> y" | "y < 0" by linarith
  then show ?thesis
  proof cases
    case 1
    then show ?thesis using assms by (rule rne_mono_pos)
  next
    case 2
    have "rne x \<le> 0" using rne_nonneg [of "- x"] 2(1) by (simp add: rne_minus)
    moreover have "0 \<le> rne y" using 2(2) by (rule rne_nonneg)
    ultimately show ?thesis by simp
  next
    case 3
    have "rne (- y) \<le> rne (- x)" using 3 assms by (intro rne_mono_pos) simp_all
    then show ?thesis by (simp add: rne_minus)
  qed
qed

text \<open>Representable values: an integer of less than 53 bits times a power of two.\<close>

lemma rne_fix:
  assumes x: "x = real_of_int m * 2 powi j" and m: "\<bar>m\<bar> < 2 ^ 53" and j: "- 1074 \<le> j"
  shows "rne x = x"
proof (cases "m = 0")
  case True
  then show ?thesis by (simp add: x rne_0)
next
  case False
  then have x0: "x \<noteq> 0" by (simp add: x)
  define k where "k = max (expo x) (- 1022) - 52"
  have u: "ulp x = 2 powi k" by (simp add: ulp_def k_def)
  have jk: "k \<le> j"
  proof (rule ccontr)
    assume "\<not> k \<le> j"
    then have lt: "j < k" by simp
    with j have e: "j + 53 \<le> expo x" unfolding k_def by linarith
    have "real_of_int \<bar>m\<bar> < 2 ^ 53"
      using m by (metis of_int_less_iff of_int_numeral of_int_power)
    then have "\<bar>x\<bar> < 2 ^ 53 * 2 powi j"
      by (simp add: x abs_mult)
    also have "\<dots> = 2 powi (j + 53)" by (simp add: power_int_add)
    also have "\<dots> \<le> 2 powi (expo x)" using e by (rule two_powi_mono)
    also have "\<dots> \<le> \<bar>x\<bar>" by (rule expo_bounds(1) [OF x0])
    finally show False by simp
  qed
  have "2 powi j = (2::real) powi (j - k) * 2 powi k"
    by (simp flip: power_int_add)
  also have "(2::real) powi (j - k) = 2 ^ nat (j - k)"
    using jk by (simp add: power_int_def)
  finally have pj: "2 powi j = (2::real) ^ nat (j - k) * 2 powi k" .
  have "x / ulp x = real_of_int m * (2 ^ nat (j - k) * 2 powi k) / 2 powi k"
    unfolding u by (subst x, subst pj) (rule refl)
  then have "x / ulp x = real_of_int (m * 2 ^ nat (j - k))"
    by simp
  then have "py_round (x / ulp x) = m * 2 ^ nat (j - k)"
    by (simp only: py_round_of_int)
  then have "rne x = real_of_int (m * 2 ^ nat (j - k)) * ulp x"
    by (simp add: rne_def)
  also have "\<dots> = x / ulp x * ulp x"
    using \<open>x / ulp x = real_of_int (m * 2 ^ nat (j - k))\<close> by simp
  finally show ?thesis using ulp_pos [of x] by simp
qed

lemma rne_fix_int: "\<bar>m\<bar> < 2 ^ 53 \<Longrightarrow> rne (real_of_int m) = real_of_int m"
  using rne_fix [of "real_of_int m" m 0] by simp

lemma rne_fix_int_le: 
  assumes "\<bar>m\<bar> \<le> 2 ^ 53" shows "rne (real_of_int m) = real_of_int m"
proof (cases "\<bar>m\<bar> = 2 ^ 53")
  case True
  then have "m = 2 ^ 53 \<or> m = - (2 ^ 53)" by linarith
  then show ?thesis
    using rne_fix [of "2 ^ 53" 1 53] rne_fix [of "- (2 ^ 53)" "- 1" 53] by auto
next
  case False
  with assms show ?thesis by (intro rne_fix_int) simp
qed

lemma rne_idem: "rne (rne x) = rne x"
proof -
  define n where "n = py_round (x / ulp x)"
  define k where "k = max (expo x) (- 1022) - 52"
  have u: "ulp x = 2 powi k" by (simp add: ulp_def k_def)
  have r: "rne x = real_of_int n * 2 powi k" by (simp add: rne_def n_def u)
  have k: "- 1074 \<le> k" by (simp add: k_def)
  have "\<bar>x / ulp x\<bar> < 2 ^ 53"
  proof (cases "x = 0")
    case True then show ?thesis by simp
  next
    case False
    then have "0 < \<bar>x\<bar>" by simp
    from scaled_bounds(1) [OF this] show ?thesis 
      using ulp_pos [of x] by (simp add: ulp_def expo_def abs_divide flip: abs_mult)
  qed
  then have "- (2 ^ 53) \<le> x / ulp x" "x / ulp x \<le> 2 ^ 53" by linarith+
  then have "real_of_int (- (2 ^ 53)) \<le> x / ulp x" "x / ulp x \<le> real_of_int (2 ^ 53)" by simp_all
  then have "- (2 ^ 53) \<le> n" "n \<le> 2 ^ 53"
    unfolding n_def using py_round_ge py_round_le by blast+
  then have nb: "\<bar>n\<bar> \<le> 2 ^ 53" by linarith
  show ?thesis
  proof (cases "\<bar>n\<bar> = 2 ^ 53")
    case True
    then have "n = 2 ^ 53 \<or> n = - (2 ^ 53)" by linarith
    then have "rne x = real_of_int 1 * 2 powi (k + 53) \<or> rne x = real_of_int (- 1) * 2 powi (k + 53)"
      by (auto simp: r power_int_add)
    then show ?thesis
      using rne_fix [of "rne x" 1 "k + 53"] rne_fix [of "rne x" "- 1" "k + 53"] k by auto
  next
    case False
    with nb have "\<bar>n\<bar> < 2 ^ 53" by linarith
    then show ?thesis using r k by (intro rne_fix [of _ n k])
  qed
qed

lemma rne_abs_le:
  assumes "\<bar>x\<bar> \<le> b" and "rne b = b"
  shows "\<bar>rne x\<bar> \<le> b"
proof -
  have "- b \<le> x" "x \<le> b" using assms(1) by linarith+
  then have "rne (- b) \<le> rne x" "rne x \<le> rne b" using rne_mono by blast+
  then show ?thesis by (simp add: rne_minus assms(2))
qed

lemma round64_Fin:
  assumes "\<bar>x\<bar> \<le> b" and "rne b = b" and "b < 2 ^ 1024"
  shows "round64 x = Fin (rne x)"
  using rne_abs_le [OF assms(1,2)] assms(3) by (simp add: round64_def Let_def)

lemma round64_is_f64: "round64 x = Fin r \<Longrightarrow> is_f64 r"
  by (auto simp: round64_def Let_def is_f64_def rne_idem split: if_splits)

lemma is_f64_rne: "is_f64 x \<Longrightarrow> rne x = x"
  by (simp add: is_f64_def)

lemma is_f64_abs:
  assumes "is_f64 x"
  shows "rne \<bar>x\<bar> = \<bar>x\<bar>" and "\<bar>x\<bar> < 2 ^ 1024"
  using assms by (auto simp: is_f64_def abs_if rne_minus)

lemma is_f64_int: "\<bar>m\<bar> \<le> 2 ^ 53 \<Longrightarrow> is_f64 (real_of_int m)"
proof -
  assume m: "\<bar>m\<bar> \<le> 2 ^ 53"
  then have "real_of_int \<bar>m\<bar> \<le> real_of_int (2 ^ 53)" by (simp only: of_int_le_iff)
  then have "\<bar>real_of_int m\<bar> \<le> 2 ^ 53" by simp
  also have "\<dots> < (2::real) ^ 1024" by simp
  finally show ?thesis using rne_fix_int_le [OF m] by (simp add: is_f64_def)
qed

lemma fadd_Fin:
  "\<bar>a + b\<bar> \<le> c \<Longrightarrow> rne c = c \<Longrightarrow> c < 2 ^ 1024 \<Longrightarrow> fadd (Fin a) (Fin b) = Fin (rne (a + b))"
  by (simp add: round64_Fin)

lemma fsub_Fin:
  "\<bar>a - b\<bar> \<le> c \<Longrightarrow> rne c = c \<Longrightarrow> c < 2 ^ 1024 \<Longrightarrow> fsub (Fin a) (Fin b) = Fin (rne (a - b))"
  by (simp add: fsub_def round64_Fin)

lemma fmul_Fin:
  "\<bar>a * b\<bar> \<le> c \<Longrightarrow> rne c = c \<Longrightarrow> c < 2 ^ 1024 \<Longrightarrow> fmul (Fin a) (Fin b) = Fin (rne (a * b))"
  by (simp add: round64_Fin)

lemma fdiv_Fin:
  "\<bar>a / b\<bar> \<le> c \<Longrightarrow> rne c = c \<Longrightarrow> c < 2 ^ 1024 \<Longrightarrow> fdiv (Fin a) (Fin b) = Fin (rne (a / b))"
  by (simp add: round64_Fin)

lemma fmod_props:
  fixes a w :: real
  assumes "0 < w"
  defines "m \<equiv> a - w * real_of_int (trunc (a / w))"
  shows "\<bar>m\<bar> < w" and "0 \<le> a \<Longrightarrow> 0 \<le> m \<and> m \<le> a" and "a \<le> 0 \<Longrightarrow> m \<le> 0 \<and> a \<le> m"
proof -
  have f1: "w * real_of_int \<lfloor>a / w\<rfloor> \<le> a"
    using floor_divide_lower [OF assms(1), of a] by (simp add: mult.commute)
  have f2: "a < w * real_of_int \<lfloor>a / w\<rfloor> + w"
    using floor_divide_upper [OF assms(1), of a] by (simp add: algebra_simps)
  have c1: "a \<le> w * real_of_int \<lceil>a / w\<rceil>"
    using ceiling_divide_upper [OF assms(1), of a] by (simp add: mult.commute)
  have c2: "w * real_of_int \<lceil>a / w\<rceil> - w < a"
    using ceiling_divide_lower [OF assms(1), of a] by (simp add: algebra_simps)
  show "\<bar>m\<bar> < w"
    using f1 f2 c1 c2 by (auto simp: m_def trunc_def)
  show "0 \<le> m \<and> m \<le> a" if "0 \<le> a"
  proof -
    have "0 \<le> a / w" using that assms(1) by simp
    then have t: "trunc (a / w) = \<lfloor>a / w\<rfloor>" "0 \<le> \<lfloor>a / w\<rfloor>" by (simp_all add: trunc_def)
    then have "0 \<le> w * real_of_int \<lfloor>a / w\<rfloor>" using assms(1) by simp
    then show ?thesis using f1 f2 by (simp add: m_def t)
  qed
  show "m \<le> 0 \<and> a \<le> m" if "a \<le> 0"
  proof (cases "a = 0")
    case True then show ?thesis by (simp add: m_def trunc_def)
  next
    case False
    with that have "a / w < 0" using assms(1) by (simp add: field_simps)
    then have t: "trunc (a / w) = \<lceil>a / w\<rceil>" "\<lceil>a / w\<rceil> \<le> 0" by (simp_all add: trunc_def ceiling_le_iff)
    then have "w * real_of_int \<lceil>a / w\<rceil> \<le> 0" using assms(1) by (simp add: mult_le_0_iff)
    then show ?thesis using c1 c2 by (simp add: m_def t)
  qed
qed

lemma rne_2_1023: "rne (2 ^ 1023) = 2 ^ 1023"
  using rne_fix [of "2 ^ 1023" 1 1023] by simp

lemma rne_3_1022: "rne (3 * 2 ^ 1022) = 3 * 2 ^ 1022"
  using rne_fix [of "3 * 2 ^ 1022" 3 1022] by simp

lemma rne_7_1021: "rne (7 * 2 ^ 1021) = 7 * 2 ^ 1021"
  using rne_fix [of "7 * 2 ^ 1021" 7 1021] by simp

lemma rne_1: "rne 1 = 1"
  using rne_fix_int [of 1] by simp

lemma rne_m1: "rne (- 1) = - 1"
  using rne_fix_int [of "- 1"] by simp

lemma float_div_mod_Fin:
  assumes a: "is_f64 a" and w: "is_f64 w" "2 \<le> w"
  defines "m \<equiv> a - w * real_of_int (trunc (a / w))"
  defines "d0 \<equiv> rne (rne (a - m) / w)"
  defines "m1 \<equiv> (if m < 0 then rne (m + w) else m)"
  defines "d1 \<equiv> (if m < 0 then rne (d0 - 1) else d0)"
  defines "fd \<equiv> (if d1 = 0 then 0
                  else if 1 / 2 < rne (d1 - real_of_int \<lfloor>d1\<rfloor>)
                       then rne (real_of_int \<lfloor>d1\<rfloor> + 1) else real_of_int \<lfloor>d1\<rfloor>)"
  shows "float_div_mod (Fin a) (Fin w) = (Fin fd, Fin m1)"
    and "\<bar>d0\<bar> \<le> 2 ^ 1023" and "\<bar>d1\<bar> \<le> 3 * 2 ^ 1022"
proof -
  have wpos: "0 < w" "w \<noteq> 0" using w(2) by simp_all
  note A = is_f64_abs [OF a] and W = is_f64_abs [OF w(1)]
  have wabs: "\<bar>w\<bar> = w" using wpos by simp
  note mp = fmod_props [OF wpos(1), of a, folded m_def]
  have am: "\<bar>a - m\<bar> \<le> \<bar>a\<bar>" using mp(2,3) by (cases "0 \<le> a") auto
  have e1: "fsub (Fin a) (Fin m) = Fin (rne (a - m))"
    by (rule fsub_Fin [OF am A])
  have s: "\<bar>rne (a - m)\<bar> \<le> \<bar>a\<bar>" by (rule rne_abs_le [OF am A(1)])
  have "\<bar>rne (a - m) / w\<bar> = \<bar>rne (a - m)\<bar> / w" using wpos by simp
  also have "\<dots> \<le> \<bar>a\<bar> / 2"
    using s w(2) by (intro frac_le) simp_all
  also have "\<dots> \<le> 2 ^ 1023" using A(2) by simp
  finally have sw: "\<bar>rne (a - m) / w\<bar> \<le> 2 ^ 1023" .
  have e2: "fdiv (Fin (rne (a - m))) (Fin w) = Fin d0"
    unfolding d0_def by (rule fdiv_Fin [OF sw rne_2_1023]) simp
  show d0b: "\<bar>d0\<bar> \<le> 2 ^ 1023"
    unfolding d0_def by (rule rne_abs_le [OF sw rne_2_1023])
  have d01: "\<bar>d0 - 1\<bar> \<le> 3 * 2 ^ 1022" using d0b by simp
  have e3: "fsub (Fin d0) (Fin 1) = Fin (rne (d0 - 1))"
    by (rule fsub_Fin [OF d01 rne_3_1022]) simp
  have "\<bar>rne (d0 - 1)\<bar> \<le> 3 * 2 ^ 1022" by (rule rne_abs_le [OF d01 rne_3_1022])
  then show d1b: "\<bar>d1\<bar> \<le> 3 * 2 ^ 1022" using d0b by (simp add: d1_def)
  have e4: "fadd (Fin m) (Fin w) = Fin (rne (m + w))" if "m < 0"
  proof -
    have "\<bar>m + w\<bar> \<le> w" using that mp(1) by linarith
    then show ?thesis using W by (intro fadd_Fin [where c = w]) (simp_all add: wabs)
  qed
  have fr: "\<bar>d1 - real_of_int \<lfloor>d1\<rfloor>\<bar> \<le> 1" by linarith
  have e5: "fsub (Fin d1) (Fin (real_of_int \<lfloor>d1\<rfloor>)) = Fin (rne (d1 - real_of_int \<lfloor>d1\<rfloor>))"
    by (rule fsub_Fin [OF fr rne_1]) simp
  have "\<bar>real_of_int \<lfloor>d1\<rfloor> + 1\<bar> \<le> \<bar>d1\<bar> + 1" by linarith
  then have f1: "\<bar>real_of_int \<lfloor>d1\<rfloor> + 1\<bar> \<le> 7 * 2 ^ 1021" using d1b by simp
  have e6: "fadd (Fin (real_of_int \<lfloor>d1\<rfloor>)) (Fin 1) = Fin (rne (real_of_int \<lfloor>d1\<rfloor> + 1))"
    by (rule fadd_Fin [OF f1 rne_7_1021]) simp
  have c: "c_fmod (Fin a) (Fin w) = Fin m" using wpos by (simp add: m_def)
  have step1: "(if Fin m \<noteq> Fin 0
             then (if flt (Fin w) (Fin 0) \<noteq> flt (Fin m) (Fin 0)
                   then (fadd (Fin m) (Fin w), fsub (Fin d0) (Fin 1)) else (Fin m, Fin d0))
             else (Fin 0, Fin d0)) = (Fin m1, Fin d1)"
    using wpos e3 e4 by (auto simp: m1_def d1_def)
  have step2: "(if Fin d1 \<noteq> Fin 0
             then (if flt (Fin (1 / 2)) (fsub (Fin d1) (ffloor (Fin d1)))
                   then fadd (ffloor (Fin d1)) (Fin 1) else ffloor (Fin d1))
             else Fin 0) = Fin fd"
    using e5 e6 by (simp add: fd_def)
  show "float_div_mod (Fin a) (Fin w) = (Fin fd, Fin m1)"
    unfolding float_div_mod_def Let_def c e1 e2 step1 prod.case step2 by simp
qed

lemma float_div_mod_fdm:
  assumes "is_f64 a" and "is_f64 w" and "2 \<le> w"
  shows "float_div_mod (Fin a) (Fin w) = (Fin (fdm_floordiv a w), Fin (fdm_rem a w))"
  using float_div_mod_Fin(1) [OF assms]
  by (simp add: fdm_floordiv_def fdm_rem_def fdm_div_def fdm_mod_def Let_def)

lemma py_mod_fdm:
  assumes "is_f64 a" and "is_f64 w" and "2 \<le> w"
  shows "py_mod (Fin a) (Fin w) = Inr (Fin (fdm_rem a w))"
proof -
  have wpos: "0 < w" using assms(3) by simp
  note mp = fmod_props [OF wpos, of a]
  have "fadd (Fin (fdm_mod a w)) (Fin w) = Fin (rne (fdm_mod a w + w))" if "fdm_mod a w < 0"
  proof -
    have "\<bar>fdm_mod a w + w\<bar> \<le> w" using that mp(1) unfolding fdm_mod_def by linarith
    then show ?thesis
      using is_f64_abs [OF assms(2)] wpos by (intro fadd_Fin [where c = w]) simp_all
  qed
  then show ?thesis
    using wpos by (auto simp: py_mod_def fdm_rem_def Let_def simp flip: fdm_mod_def)
qed

lemma fdm_rem_bounds:
  assumes "is_f64 w" and "0 < w"
  shows "0 \<le> fdm_rem a w" and "fdm_rem a w \<le> w"
proof -
  note mp = fmod_props(1) [OF assms(2), of a, folded fdm_mod_def]
  have w: "rne w = w" using assms(1) by (rule is_f64_rne)
  show "0 \<le> fdm_rem a w"
    using mp rne_nonneg [of "fdm_mod a w + w"] by (simp add: fdm_rem_def)
  have "rne (fdm_mod a w + w) \<le> rne w" if "fdm_mod a w < 0"
    using that by (intro rne_mono) simp
  then show "fdm_rem a w \<le> w"
    using mp by (auto simp: fdm_rem_def w)
qed

lemma fdm_div_neg:
  assumes a: "is_f64 a" "a < 0" and w: "is_f64 w" "1 \<le> w"
  shows "fdm_div a w \<le> - 1"
proof -
  have wpos: "0 < w" using w(2) by simp
  note mp = fmod_props [OF wpos, of a, folded fdm_mod_def]
  have m: "fdm_mod a w \<le> 0" "a \<le> fdm_mod a w" using mp(3) a(2) by simp_all
  define d0 where "d0 = rne (rne (a - fdm_mod a w) / w)"
  have "rne (a - fdm_mod a w) \<le> rne 0" using m(2) by (intro rne_mono) simp
  then have "rne (a - fdm_mod a w) / w \<le> 0" using wpos by (simp add: rne_0 divide_le_0_iff)
  then have "d0 \<le> rne 0" unfolding d0_def by (rule rne_mono)
  then have d0: "d0 \<le> 0" by (simp add: rne_0)
  show ?thesis
  proof (cases "fdm_mod a w < 0")
    case True
    have "rne (d0 - 1) \<le> rne (- 1)" using d0 by (intro rne_mono) simp
    then show ?thesis using True by (simp add: fdm_div_def d0_def rne_m1)
  next
    case False
    with m(1) have m0: "fdm_mod a w = 0" by simp
    then have aw: "a = w * real_of_int (trunc (a / w))" by (simp add: fdm_mod_def)
    have "trunc (a / w) < 0"
    proof (rule ccontr)
      assume "\<not> trunc (a / w) < 0"
      then have "0 \<le> w * real_of_int (trunc (a / w))" using wpos by simp
      with aw a(2) show False by simp
    qed
    then have "real_of_int (trunc (a / w)) \<le> - 1" by linarith
    moreover have "a / w = real_of_int (trunc (a / w))" using wpos by (subst aw) simp
    ultimately have "a / w \<le> - 1" by simp
    then have "rne (a / w) \<le> rne (- 1)" by (rule rne_mono)
    then show ?thesis
      using False m0 by (simp add: fdm_div_def rne_m1 is_f64_rne [OF a(1)])
  qed
qed

lemma fdm_floordiv_neg:
  assumes "is_f64 a" "a < 0" and "is_f64 w" "1 \<le> w"
  shows "fdm_floordiv a w \<le> - 1"
proof -
  define d1 where "d1 = fdm_div a w"
  have d1: "d1 \<le> - 1" unfolding d1_def by (rule fdm_div_neg [OF assms])
  then have f: "\<lfloor>d1\<rfloor> \<le> - 1" by linarith
  show ?thesis
  proof (cases "1 / 2 < rne (d1 - real_of_int \<lfloor>d1\<rfloor>)")
    case True
    have "\<lfloor>d1\<rfloor> \<noteq> - 1"
    proof
      assume e: "\<lfloor>d1\<rfloor> = - 1"
      then have "- 1 \<le> d1" by linarith
      with d1 have "d1 = - 1" by simp
      with True show False by (simp add: rne_0)
    qed
    with f have "\<lfloor>d1\<rfloor> \<le> - 2" by linarith
    then have "real_of_int \<lfloor>d1\<rfloor> + 1 \<le> - 1" by linarith
    then have "rne (real_of_int \<lfloor>d1\<rfloor> + 1) \<le> rne (- 1)" by (rule rne_mono)
    then show ?thesis using True d1 by (simp add: fdm_floordiv_def Let_def rne_m1 flip: d1_def)
  next
    case False
    have "real_of_int \<lfloor>d1\<rfloor> \<le> - 1" using f by linarith
    then show ?thesis using False d1 by (simp add: fdm_floordiv_def Let_def flip: d1_def)
  qed
qed

lemma fdm_floor_mod:
  assumes "0 < w"
  shows "fdm_mod a w < 0 \<Longrightarrow> real_of_int \<lfloor>a / w\<rfloor> = real_of_int (trunc (a / w)) - 1"
    and "\<not> fdm_mod a w < 0 \<Longrightarrow> \<lfloor>a / w\<rfloor> = trunc (a / w)"
    and "a - w * real_of_int \<lfloor>a / w\<rfloor> = (if fdm_mod a w < 0 then fdm_mod a w + w else fdm_mod a w)"
proof -
  note mp = fmod_props [OF assms, of a, folded fdm_mod_def]
  define k where "k = trunc (a / w)"
  have a: "a / w = real_of_int k + fdm_mod a w / w"
    using assms by (simp add: fdm_mod_def k_def field_simps)
  have "- w < fdm_mod a w" "fdm_mod a w < w" using mp(1) by linarith+
  then have lt: "- 1 < fdm_mod a w / w" "fdm_mod a w / w < 1"
    using assms by (simp_all add: pos_less_divide_eq pos_divide_less_eq)
  have 1: "\<lfloor>a / w\<rfloor> = k - 1" if "fdm_mod a w < 0"
  proof (rule floor_unique)
    have "fdm_mod a w / w < 0" using that assms by (simp add: divide_less_0_iff)
    then show "a / w < real_of_int (k - 1) + 1" using a by simp
    show "real_of_int (k - 1) \<le> a / w" using a lt by simp
  qed
  have 2: "\<lfloor>a / w\<rfloor> = k" if "\<not> fdm_mod a w < 0"
  proof (rule floor_unique)
    have "0 \<le> fdm_mod a w / w" using that assms by simp
    then show "real_of_int k \<le> a / w" using a by simp
    show "a / w < real_of_int k + 1" using a lt by simp
  qed
  show "fdm_mod a w < 0 \<Longrightarrow> real_of_int \<lfloor>a / w\<rfloor> = real_of_int (trunc (a / w)) - 1"
    using 1 by (simp add: k_def)
  show "\<not> fdm_mod a w < 0 \<Longrightarrow> \<lfloor>a / w\<rfloor> = trunc (a / w)"
    using 2 by (simp add: k_def)
  show "a - w * real_of_int \<lfloor>a / w\<rfloor> = (if fdm_mod a w < 0 then fdm_mod a w + w else fdm_mod a w)"
  proof (cases "fdm_mod a w < 0")
    case True
    then have e: "real_of_int \<lfloor>a / w\<rfloor> = real_of_int k - 1" using 1 by simp
    have "a - w * (real_of_int k - 1) = a - w * real_of_int k + w" by (simp add: algebra_simps)
    then show ?thesis using True unfolding e by (simp add: fdm_mod_def k_def)
  next
    case False
    then have "real_of_int \<lfloor>a / w\<rfloor> = real_of_int k" using 2 by simp
    then show ?thesis using False by (simp add: fdm_mod_def k_def)
  qed
qed

lemma fdm_exact:
  assumes a: "\<bar>a\<bar> < 2 ^ 53" and w: "w = real_of_int wi" "2 \<le> wi"
  shows "fdm_floordiv a w = real_of_int \<lfloor>a / w\<rfloor>"
    and "fdm_rem a w = (if 0 \<le> a then a - w * real_of_int \<lfloor>a / w\<rfloor>
                        else rne (a - w * real_of_int \<lfloor>a / w\<rfloor>))"
proof -
  have wpos: "0 < w" "2 \<le> w" using w by simp_all
  note mp = fmod_props [OF wpos(1), of a, folded fdm_mod_def]
  note fm = fdm_floor_mod [OF wpos(1), of a]
  define k where "k = trunc (a / w)"
  have am: "a - fdm_mod a w = real_of_int (wi * k)" by (simp add: fdm_mod_def k_def w)
  have "\<bar>a - fdm_mod a w\<bar> \<le> \<bar>a\<bar>" using mp(2,3) by (cases "0 \<le> a") auto
  then have "\<bar>real_of_int (wi * k)\<bar> < 2 ^ 53" using a am by simp
  then have "real_of_int \<bar>wi * k\<bar> < real_of_int (2 ^ 53)" by simp
  then have wk: "\<bar>wi * k\<bar> < 2 ^ 53" by (simp only: of_int_less_iff)
  have "\<bar>k\<bar> * 2 \<le> \<bar>k\<bar> * wi" using w(2) by (intro mult_left_mono) simp_all
  also have "\<dots> = \<bar>wi * k\<bar>" using w(2) by (simp add: abs_mult mult.commute)
  finally have k: "\<bar>k\<bar> < 2 ^ 52" using wk by simp
  have r1: "rne (a - fdm_mod a w) = real_of_int (wi * k)"
    unfolding am by (rule rne_fix_int [OF wk])
  have "real_of_int (wi * k) / w = real_of_int k" using wpos by (simp add: w)
  then have d0: "rne (rne (a - fdm_mod a w) / w) = real_of_int k"
    using k by (simp add: r1 rne_fix_int)
  have "rne (real_of_int k - 1) = real_of_int (k - 1)"
    using k rne_fix_int [of "k - 1"] by simp
  then have d1: "fdm_div a w = real_of_int (if fdm_mod a w < 0 then k - 1 else k)"
    by (simp add: fdm_div_def d0 Let_def)
  have fd: "fdm_floordiv a w = fdm_div a w"
    unfolding fdm_floordiv_def Let_def d1 by (simp add: rne_0)
  show "fdm_floordiv a w = real_of_int \<lfloor>a / w\<rfloor>"
    using fm(1,2) by (auto simp: fd d1 k_def)
  show "fdm_rem a w = (if 0 \<le> a then a - w * real_of_int \<lfloor>a / w\<rfloor>
                        else rne (a - w * real_of_int \<lfloor>a / w\<rfloor>))"
  proof (cases "0 \<le> a")
    case True
    then have "\<not> fdm_mod a w < 0" using mp(2) by simp
    then show ?thesis using True fm(3) by (simp add: fdm_rem_def)
  next
    case False
    then have "fdm_mod a w \<le> 0" using mp(3) by simp
    then show ?thesis
      using False fm(3) by (cases "fdm_mod a w < 0") (simp_all add: fdm_rem_def rne_0)
  qed
qed

lemma rne_error_below:
  assumes "\<bar>x\<bar> < 2 powi (e + 1)" and "- 1022 \<le> e"
  shows "\<bar>rne x - x\<bar> \<le> 2 powi (e - 53)"
proof (cases "x = 0")
  case True
  then show ?thesis by (simp add: rne_0)
next
  case False
  have "2 powi expo x \<le> \<bar>x\<bar>" by (rule expo_bounds(1) [OF False])
  also have "\<dots> < 2 powi (e + 1)" by fact
  finally have "expo x < e + 1" by (rule two_powi_less_cancel)
  then have "max (expo x) (- 1022) - 52 \<le> e - 52" using assms(2) by simp
  then have "ulp x \<le> 2 powi (e - 52)" unfolding ulp_def by (rule two_powi_mono)
  also have "\<dots> = 2 * 2 powi (e - 53)"
    using power_int_add [of "2::real" "e - 53" 1] by simp
  finally show ?thesis using rne_error [of x] by simp
qed

lemma round64_int: "\<bar>n\<bar> < 2 ^ 53 \<Longrightarrow> round64 (real_of_int n) = Fin (real_of_int n)"
proof -
  assume n: "\<bar>n\<bar> < 2 ^ 53"
  then have f: "is_f64 (real_of_int n)" by (intro is_f64_int) simp
  have "round64 (real_of_int n) = Fin (rne (real_of_int n))"
    using is_f64_abs [OF f] by (intro round64_Fin [where b = "\<bar>real_of_int n\<bar>"]) simp_all
  then show ?thesis by (simp add: is_f64_rne [OF f])
qed

lemma float_of_int_small: "\<bar>n\<bar> < 2 ^ 53 \<Longrightarrow> float_of_int n = Inr (Fin (real_of_int n))"
  by (simp add: float_of_int_def round64_int)

lemma is_f64_144: "is_f64 144"
  using is_f64_int [of 144] by simp

lemma convert_Fin:
  assumes "is_f64 a"
  shows "convert_sq_in_to_ft_in (Fin a) = Inr (trunc (fdm_floordiv a 144), Fin (fdm_rem a 144))"
proof -
  have q: "py_floordiv (Fin a) (Fin 144) = Inr (Fin (fdm_floordiv a 144))"
    using float_div_mod_fdm [OF assms is_f64_144] by (simp add: py_floordiv_def)
  have r: "py_mod (Fin a) (Fin 144) = Inr (Fin (fdm_rem a 144))"
    using py_mod_fdm [OF assms is_f64_144] by simp
  show ?thesis by (simp add: convert_sq_in_to_ft_in_def SQ_IN_PER_SQ_FT_def q r)
qed

lemma trunc_of_int: "trunc (real_of_int n) = n"
  by (simp add: trunc_def)

lemma trunc_neg: "x \<le> - 1 \<Longrightarrow> trunc x \<le> - 1"
  by (simp add: trunc_def ceiling_le_iff)


lemma convert_finite:
  assumes a: "is_f64 a"
  shows "\<exists>ft rem_in. convert_sq_in_to_ft_in (Fin a) = Inr (ft, Fin rem_in)
           \<and> 0 \<le> rem_in \<and> rem_in \<le> 144
           \<and> (a < 0 \<longrightarrow> ft < 0)
           \<and> (\<bar>a\<bar> < 2 ^ 53 \<longrightarrow>
                ft = \<lfloor>a / 144\<rfloor>
                \<and> rem_in = (if 0 \<le> a then a - 144 * real_of_int \<lfloor>a / 144\<rfloor>
                             else rne (a - 144 * real_of_int \<lfloor>a / 144\<rfloor>))
                \<and> \<bar>144 * real_of_int ft + rem_in - a\<bar> \<le> 1 / 2 ^ 46)"
proof -
  let ?ft = "trunc (fdm_floordiv a 144)" and ?rem = "fdm_rem a 144"
  have res: "convert_sq_in_to_ft_in (Fin a) = Inr (?ft, Fin ?rem)" by (rule convert_Fin [OF a])
  have rb: "0 \<le> ?rem" "?rem \<le> 144" using fdm_rem_bounds [OF is_f64_144, of a] by simp_all
  have neg: "?ft < 0" if "a < 0"
  proof -
    have "fdm_floordiv a 144 \<le> - 1" using a that is_f64_144 by (intro fdm_floordiv_neg) simp_all
    then have "?ft \<le> - 1" by (rule trunc_neg)
    then show ?thesis by simp
  qed
  have ex: "?ft = \<lfloor>a / 144\<rfloor>
      \<and> ?rem = (if 0 \<le> a then a - 144 * real_of_int \<lfloor>a / 144\<rfloor>
                 else rne (a - 144 * real_of_int \<lfloor>a / 144\<rfloor>))
      \<and> \<bar>144 * real_of_int ?ft + ?rem - a\<bar> \<le> 1 / 2 ^ 46" if small: "\<bar>a\<bar> < 2 ^ 53"
  proof -
    note e = fdm_exact [OF small, of 144 144, simplified]
    have ft: "?ft = \<lfloor>a / 144\<rfloor>" by (simp add: e(1) trunc_of_int)
    define y where "y = a - 144 * real_of_int \<lfloor>a / 144\<rfloor>"
    have y: "0 \<le> y" "y < 144" unfolding y_def by linarith+
    then have "\<bar>y\<bar> < 2 powi (7 + 1)" by simp
    then have "\<bar>rne y - y\<bar> \<le> 2 powi (7 - 53)" by (rule rne_error_below) simp
    then have err: "\<bar>rne y - y\<bar> \<le> 1 / 2 ^ 46" by (simp add: power_int_minus_divide)
    have "144 * real_of_int \<lfloor>a / 144\<rfloor> + rne y - a = rne y - y" by (simp add: y_def)
    then have "\<bar>144 * real_of_int \<lfloor>a / 144\<rfloor> + rne y - a\<bar> \<le> 1 / 2 ^ 46"
      using err by (simp only:)
    then have "\<bar>144 * real_of_int \<lfloor>a / 144\<rfloor> + ?rem - a\<bar> \<le> 1 / 2 ^ 46"
      unfolding e(2) y_def by (cases "0 \<le> a") simp_all
    then show ?thesis using ft e(2) by simp
  qed
  from res rb neg ex show ?thesis by blast
qed

subsection \<open>Facts about the conversion of square inches\<close>

lemma round64_eval: "rne x = y \<Longrightarrow> \<bar>y\<bar> < 2 ^ 1024 \<Longrightarrow> round64 x = Fin y"
  by (simp add: round64_def Let_def)

lemma is_f64_tiny: "is_f64 (- (1 / 2 ^ 70))"
  using rne_fix [of "- (1 / 2 ^ 70)" "- 1" "- 70"]
  by (simp add: is_f64_def power_int_minus_divide)

lemma tiny_rem: "fdm_rem (- (1 / 2 ^ 70)) 144 = 144"
  by code_simp

lemma tiny_floordiv: "fdm_floordiv (- (1 / 2 ^ 70)) 144 = - 1"
  by code_simp

lemma fadd_result_is_f64: "fadd x y = Fin r \<Longrightarrow> is_f64 r"
  by (cases x; cases y) (auto dest: round64_is_f64)

lemma fsub_result_is_f64: "fsub x y = Fin r \<Longrightarrow> is_f64 r"
  unfolding fsub_def by (rule fadd_result_is_f64)

lemma floor_div_minus_one: "- w \<le> x \<Longrightarrow> x < 0 \<Longrightarrow> 0 < w \<Longrightarrow> \<lfloor>x / w\<rfloor> = - 1" for x w :: real
  by (rule floor_unique) (simp_all add: field_simps)

lemma round64_100: "round64 100 = Fin 100" "round64 200 = Fin 200" "round64 (- 100) = Fin (- 100)"
  using round64_int [of 100] round64_int [of 200] round64_int [of "- 100"] by simp_all

lemma wall64_over_cut_siding: "Wall64_siding_area_sq_in sum_left wall64_over_cut = Inr (Fin (- 100))"
  by (simp add: Wall64_siding_area_sq_in_def Wall64_section_area_sq_in_def
      Wall64_opening_area_sq_in_def wall64_over_cut_def sum_left_def RectSection64_area_sq_in_def
      Opening64_area_sq_in_def fsub_def round64_100)

lemma is_f64_m100: "is_f64 (- 100)"
  using is_f64_int [of "- 100"] by simp

lemma m100_rem: "fdm_rem (- 100) 144 = 44"
  by code_simp

lemma m100_floordiv: "fdm_floordiv (- 100) 144 = - 1"
  by code_simp

lemma convert_m100: "convert_sq_in_to_ft_in (Fin (- 100)) = Inr (- 1, Fin 44)"
  unfolding convert_Fin [OF is_f64_m100] m100_rem m100_floordiv
  using trunc_of_int [of "- 1"] by simp

lemma rne_tenths:
  "rne float_0_1 = float_0_1" "rne float_0_2 = float_0_2" "rne float_0_3 = float_0_3"
  "rne (float_0_1 + float_0_2) = 1351079888211149 / 2 ^ 52"
  "rne (float_0_3 - 1351079888211149 / 2 ^ 52) = - (1 / 2 ^ 54)"
  by code_simp+

lemma tenths_small: "\<bar>float_0_1\<bar> < 2 ^ 1024" "\<bar>float_0_2\<bar> < 2 ^ 1024" "\<bar>float_0_3\<bar> < 2 ^ 1024"
  by (simp_all add: float_0_1_def float_0_2_def float_0_3_def)

lemma round64_tenths:
  "round64 float_0_1 = Fin float_0_1" "round64 float_0_2 = Fin float_0_2"
  "round64 float_0_3 = Fin float_0_3"
  "round64 (float_0_1 + float_0_2) = Fin (1351079888211149 / 2 ^ 52)"
  "round64 (float_0_3 - 1351079888211149 / 2 ^ 52) = Fin (- (1 / 2 ^ 54))"
proof -
  show "round64 float_0_1 = Fin float_0_1"
    by (rule round64_eval [OF rne_tenths(1)]) (simp add: float_0_1_def)
  show "round64 float_0_2 = Fin float_0_2"
    by (rule round64_eval [OF rne_tenths(2)]) (simp add: float_0_2_def)
  show "round64 float_0_3 = Fin float_0_3"
    by (rule round64_eval [OF rne_tenths(3)]) (simp add: float_0_3_def)
  show "round64 (float_0_1 + float_0_2) = Fin (1351079888211149 / 2 ^ 52)"
    by (rule round64_eval [OF rne_tenths(4)]) simp
  show "round64 (float_0_3 - 1351079888211149 / 2 ^ 52) = Fin (- (1 / 2 ^ 54))"
    by (rule round64_eval [OF rne_tenths(5)]) simp
qed

lemma wall64_tenths_siding:
  "Wall64_siding_area_sq_in sum_left wall64_tenths = Inr (Fin (- (1 / 2 ^ 54)))"
  by (simp add: Wall64_siding_area_sq_in_def Wall64_section_area_sq_in_def
      Wall64_opening_area_sq_in_def wall64_tenths_def sum_left_def RectSection64_area_sq_in_def
      Opening64_area_sq_in_def fsub_def round64_tenths del: power_numeral)

lemma is_f64_m54: "is_f64 (- (1 / 2 ^ 54))"
  using rne_fix [of "- (1 / 2 ^ 54)" "- 1" "- 54"]
  by (simp add: is_f64_def power_int_minus_divide)

lemma m54_rem: "fdm_rem (- (1 / 2 ^ 54)) 144 = 144"
  by code_simp

lemma m54_floordiv: "fdm_floordiv (- (1 / 2 ^ 54)) 144 = - 1"
  by code_simp

lemma convert_m54: "convert_sq_in_to_ft_in (Fin (- (1 / 2 ^ 54))) = Inr (- 1, Fin 144)"
  unfolding convert_Fin [OF is_f64_m54] m54_rem m54_floordiv
  using trunc_of_int [of "- 1"] by simp

lemma wall64_tenths_ft_in: "siding_area_ft_in sum_left wall64_tenths = Inr (- 1, Fin 144)"
  unfolding siding_area_ft_in_def wall64_tenths_siding by (simp only: sum.case convert_m54)

subsection \<open>Facts about the panel count\<close>

lemma rne_pow2: "rne (2 ^ k) = 2 ^ k"
  using rne_fix [of "2 ^ k" 1 "int k"] by simp

lemma round64_le_pow2:
  assumes "\<bar>x\<bar> \<le> 2 ^ k" and "k < 1024"
  shows "round64 x = Fin (rne x)" and "\<bar>rne x\<bar> \<le> 2 ^ k"
proof -
  have "(2::real) ^ k < 2 ^ 1024" using assms(2) by (intro power_strict_increasing) simp_all
  then show "round64 x = Fin (rne x)" by (rule round64_Fin [OF assms(1) rne_pow2])
  show "\<bar>rne x\<bar> \<le> 2 ^ k" by (rule rne_abs_le [OF assms(1) rne_pow2])
qed

lemma round64_PInf:
  assumes "2 ^ 1024 \<le> x"
  shows "round64 x = PInf"
proof -
  have "rne (2 ^ 1024) \<le> rne x" using assms by (rule rne_mono)
  then have "2 ^ 1024 \<le> rne x" by (simp only: rne_pow2)
  moreover have "0 < x" using assms by (rule less_le_trans [rotated]) simp
  ultimately show ?thesis by (simp add: round64_def Let_def)
qed

lemma panels_unfold:
  "panels_needed_for_area_sq_in area panel_sq_ft waste_pct =
     (if fle panel_sq_ft (Fin 0) then Inl (ValueError Panel_sq_ft_must_be_positive)
      else math_ceil
             (fdiv (fmul (fdiv (py_max (Fin 0) area) (Fin 144)) (fadd (Fin 1) waste_pct))
                panel_sq_ft))"
  by (auto simp: panels_needed_for_area_sq_in_def SQ_IN_PER_SQ_FT_def Let_def float_truediv_def
      fle_def feq_def)

lemma math_ceil_not_panel: "math_ceil t \<noteq> Inl (ValueError Panel_sq_ft_must_be_positive)"
  by (cases t) simp_all

lemma panels_clamp:
  "\<not> flt (Fin 0) area \<Longrightarrow>
   panels_needed_for_area_sq_in area panel_sq_ft waste_pct =
   panels_needed_for_area_sq_in (Fin 0) panel_sq_ft waste_pct"
  by (simp add: panels_unfold py_max_def)

lemma panels_finite:
  assumes a: "\<bar>a\<bar> \<le> 2 ^ 100" and w: "\<bar>wst\<bar> \<le> 2 ^ 100" and p: "1 / 2 ^ 100 \<le> p"
  shows "panels_needed_for_area_sq_in (Fin a) (Fin p) (Fin wst) =
           Inr \<lceil>rne (rne (rne (max 0 a / 144) * rne (1 + wst)) / p)\<rceil>"
proof -
  have ppos: "0 < p" using p by (rule less_le_trans [rotated]) simp
  have m: "py_max (Fin 0) (Fin a) = Fin (max 0 a)" by (simp add: py_max_def max_def)
  have "\<bar>max 0 a / 144\<bar> \<le> \<bar>a\<bar>" by (simp add: max_def)
  then have b1: "\<bar>max 0 a / 144\<bar> \<le> 2 ^ 100" using a by simp
  note s1 = round64_le_pow2 [OF b1]
  have "\<bar>1 + wst\<bar> \<le> 1 + \<bar>wst\<bar>" by simp
  also have "\<dots> \<le> 2 ^ 101" using w by simp
  finally have b2: "\<bar>1 + wst\<bar> \<le> 2 ^ 101" .
  note s2 = round64_le_pow2 [OF b2]
  define x where "x = rne (max 0 a / 144)"
  define y where "y = rne (1 + wst)"
  have "\<bar>x * y\<bar> = \<bar>x\<bar> * \<bar>y\<bar>" by (simp add: abs_mult)
  also have "\<dots> \<le> 2 ^ 100 * 2 ^ 101"
    using s1(2) s2(2) unfolding x_def y_def by (intro mult_mono) simp_all
  also have "\<dots> = (2::real) ^ 201" by (simp flip: power_add)
  finally have b3: "\<bar>x * y\<bar> \<le> 2 ^ 201" .
  note s3 = round64_le_pow2 [OF b3]
  define z where "z = rne (x * y)"
  have "\<bar>z / p\<bar> = \<bar>z\<bar> * (1 / p)" using ppos by simp
  also have "\<dots> \<le> 2 ^ 201 * 2 ^ 100"
  proof (intro mult_mono)
    show "\<bar>z\<bar> \<le> 2 ^ 201" using s3(2) by (simp add: z_def)
    have "1 / p \<le> 1 / (1 / 2 ^ 100)" using p by (intro divide_left_mono) simp_all
    then show "1 / p \<le> 2 ^ 100" by simp
  qed (use ppos in simp_all)
  also have "\<dots> = (2::real) ^ 301" by (simp flip: power_add)
  finally have b4: "\<bar>z / p\<bar> \<le> 2 ^ 301" .
  note s4 = round64_le_pow2 [OF b4]
  have "\<not> fle (Fin p) (Fin 0)" using ppos by (simp add: fle_def feq_def)
  then show ?thesis
    unfolding panels_unfold
    by (simp add: m s1(1) s2(1) s3(1) [unfolded x_def y_def] s4(1) [unfolded z_def x_def y_def])
qed

lemma panels_value_3:
  "\<lceil>rne (rne (rne (max 0 10000 / 144) * rne (1 + float_0_1)) / 32)\<rceil> = 3"
  by code_simp

lemma panels_value_12:
  "\<lceil>rne (rne (rne (max 0 14400 / 144) * rne (1 + float_0_2)) / 10)\<rceil> = 12"
  by code_simp

lemma panels_exact_13: "\<lceil>max 0 14400 / 144 * (1 + float_0_2) / 10\<rceil> = 13"
  by code_simp

lemma panels_10000: "panels_needed_for_area_sq_in (Fin 10000) (Fin 32) (Fin float_0_1) = Inr 3"
  using panels_finite [of 10000 float_0_1 32]
  by (simp add: float_0_1_def flip: panels_value_3 [unfolded float_0_1_def])

lemma tenths_bounds: "\<bar>float_0_1\<bar> \<le> 2 ^ 100" "\<bar>float_0_2\<bar> \<le> 2 ^ 100"
  by (simp_all add: float_0_1_def float_0_2_def)

lemma panels_14400: "panels_needed_for_area_sq_in (Fin 14400) (Fin 10) (Fin float_0_2) = Inr 12"
proof -
  have "\<bar>14400 :: real\<bar> \<le> 2 ^ 100" "1 / 2 ^ 100 \<le> (10 :: real)" by simp_all
  from panels_finite [OF this(1) tenths_bounds(2) this(2)] show ?thesis
    by (simp only: panels_value_12)
qed

lemma panels_overflow:
  "panels_needed_for_area_sq_in (Fin (2 ^ 1023)) (Fin (1 / 2 ^ 30)) (Fin 0) = Inl OverflowError"
proof -
  define r where "r = rne (2 ^ 1023 / 144)"
  have b: "\<bar>2 ^ 1023 / 144 :: real\<bar> \<le> 2 ^ 1023" by simp
  have d1: "fdiv (Fin (2 ^ 1023)) (Fin 144) = Fin r"
    using round64_le_pow2(1) [OF b] by (simp add: r_def)
  have rb: "\<bar>r\<bar> \<le> 2 ^ 1023" unfolding r_def by (rule round64_le_pow2(2) [OF b]) simp
  have "(2::real) ^ 1015 \<le> 2 ^ 1023 / 144" by simp
  then have "rne (2 ^ 1015) \<le> r" unfolding r_def by (rule rne_mono)
  then have rl: "2 ^ 1015 \<le> r" by (simp only: rne_pow2)
  have m: "fmul (Fin r) (Fin 1) = Fin r"
    using round64_le_pow2(1) [OF rb] by (simp add: r_def rne_idem)
  have "(2::real) ^ 1024 \<le> 2 ^ 1015 * 2 ^ 30" by (simp flip: power_add)
  also have "\<dots> \<le> r * 2 ^ 30" using rl by simp
  finally have "2 ^ 1024 \<le> r / (1 / 2 ^ 30)" by simp
  then have d2: "fdiv (Fin r) (Fin (1 / 2 ^ 30)) = PInf"
    using round64_PInf by simp
  have f: "\<not> fle (Fin (1 / 2 ^ 30)) (Fin 0)" by (simp add: fle_def feq_def)
  have a1: "fadd (Fin 1) (Fin 0) = Fin 1"
    using round64_int [of 1] by simp
  have mx: "py_max (Fin 0) (Fin (2 ^ 1023)) = Fin (2 ^ 1023)" by (simp add: py_max_def)
  show ?thesis
    unfolding panels_unfold mx d1 a1 m d2 using f by simp
qed

subsection \<open>Container totals\<close>

text \<open>
  C9.  For every container, adding up the values of \<open>breakdown_by_direction\<close> gives
  \<open>total_siding_area_sq_in\<close> without a direction filter; when a wall's area raises,
  both calls raise the same error.
\<close>

theorem breakdown_sum_eq_total:
  "(case breakdown_by_direction c of
      Inl e \<Rightarrow> Inl e
    | Inr d \<Rightarrow> Inr (sum_list (map snd d))) = total_siding_area_sq_in c None"
  using breakdown_loop_total_loop [of "[]" "walls c"]
  by (simp add: breakdown_by_direction_def total_siding_area_sq_in_def)

subsection \<open>Raw and clamped siding area\<close>

text \<open>
  C4.  For every wall \<open>w\<close> whose sections have the areas \<open>as\<close>, \<open>Wall_siding_area_sq_in w\<close>
  is the sum of \<open>as\<close> minus the sum of the opening areas, unclamped (some wall has a
  negative value).  For every label \<open>d\<close>, the oriented wall reports \<open>max 0\<close> of the
  wall's value, which is never negative.
\<close>

theorem siding_area_clamping:
  "(list_all2 (\<lambda>s a. section_area s = Inr a) (sections w) as \<longrightarrow>
      Wall_siding_area_sq_in w =
        Inr (sum_list as - sum_list (map Opening_area_sq_in (openings w))))
   \<and> OrientedWall_siding_area_sq_in (OrientedWall_init w d) =
       (case Wall_siding_area_sq_in w of Inl e \<Rightarrow> Inl e | Inr a \<Rightarrow> Inr (max 0 a))
   \<and> (\<forall>a. OrientedWall_siding_area_sq_in (OrientedWall_init w d) = Inr a \<longrightarrow> 0 \<le> a)
   \<and> (\<exists>w' a. Wall_siding_area_sq_in w' = Inr a \<and> a < 0)"
proof -
  have "\<exists>w' a. Wall_siding_area_sq_in w' = Inr a \<and> a < 0"
    using wall_over_cut_siding by (intro exI [of _ wall_over_cut] exI [of _ "- 100"]) simp
  then show ?thesis
    by (auto simp: wall_siding_sum OrientedWall_siding_area_sq_in_def OrientedWall_init_def
        split: sum.splits)
qed

theorem siding_area_clamping_witness:
  "list_all2 (\<lambda>s a. section_area s = Inr a) (sections wall_over_cut) [100]
   \<and> Wall_siding_area_sq_in wall_over_cut = Inr (- 100)
   \<and> OrientedWall_siding_area_sq_in (OrientedWall_init wall_over_cut ''n'') = Inr 0"
  using siding_area_clamping [of wall_over_cut "[100]" "''n''"]
  by (simp add: wall_over_cut_def RectSection_area_sq_in_def Opening_area_sq_in_def)

subsection \<open>Triangle difference\<close>

text \<open>
  C1.  For triangle sections \<open>outer\<close> and \<open>inner\<close> (values built by the constructor) with
  the same pitch \<open>p\<close> and \<open>base_in inner \<le> base_in outer\<close>, \<open>equivalent_difference\<close>
  returns a triangle whose base is the square root of the difference of the squared
  bases, whose rise and run are those of \<open>outer\<close>, and whose area is the area of
  \<open>outer\<close> minus the area of \<open>inner\<close>.
\<close>

theorem equivalent_difference_area:
  assumes "TriSection_init b1 r1 n1 = Inr outer" and "TriSection_init b2 r2 n2 = Inr inner"
    and "pitch outer = Inr p" and "pitch inner = Inr p"
    and "base_in inner \<le> base_in outer"
  shows "\<exists>t a_outer a_inner.
           equivalent_difference outer inner = Inr t
           \<and> base_in t = sqrt ((base_in outer)\<^sup>2 - (base_in inner)\<^sup>2)
           \<and> pitch_rise t = pitch_rise outer \<and> pitch_run t = pitch_run outer
           \<and> TriSection_area_sq_in outer = Inr a_outer
           \<and> TriSection_area_sq_in inner = Inr a_inner
           \<and> TriSection_area_sq_in t = Inr (a_outer - a_inner)"
proof -
  have nonneg: "0 \<le> base_in inner"
    using assms(2) by (auto simp: TriSection_init_Inr)
  have runs: "pitch_run outer \<noteq> 0" "pitch_run inner \<noteq> 0"
    and p: "pitch_rise outer / pitch_run outer = p" "pitch_rise inner / pitch_run inner = p"
    using assms(3,4) by (simp_all add: pitch_Inr)
  let ?ao = "(1 / 2) * base_in outer * ((base_in outer / 2) * p)"
  let ?ai = "(1 / 2) * base_in inner * ((base_in inner / 2) * p)"
  let ?t = "\<lparr>base_in = sqrt ((base_in outer)\<^sup>2 - (base_in inner)\<^sup>2),
             pitch_rise = pitch_rise outer, pitch_run = pitch_run outer\<rparr>"
  have res: "equivalent_difference outer inner = Inr ?t"
    using runs p assms(5) math_isclose_refl [of p]
    by (simp add: equivalent_difference_cases [OF nonneg] not_less)
  have sq: "(sqrt ((base_in outer)\<^sup>2 - (base_in inner)\<^sup>2))\<^sup>2 = (base_in outer)\<^sup>2 - (base_in inner)\<^sup>2"
    using sq_diff_nonneg [OF nonneg assms(5)] by simp
  have ao: "TriSection_area_sq_in outer = Inr ((1 / 2) * base_in outer * ((base_in outer / 2) * p))"
    using assms(3) by (simp add: TriSection_area_sq_in_def)
  have ai: "TriSection_area_sq_in inner = Inr ((1 / 2) * base_in inner * ((base_in inner / 2) * p))"
    using assms(4) by (simp add: TriSection_area_sq_in_def)
  have pt: "pitch ?t = Inr p"
    using runs p by (simp add: pitch_Inr)
  have "(1 / 2) * base_in ?t * ((base_in ?t / 2) * p) = (base_in ?t)\<^sup>2 * p / 4"
    by (simp add: power2_eq_square)
  also have "\<dots> = ((base_in outer)\<^sup>2 - (base_in inner)\<^sup>2) * p / 4"
    using sq by simp
  also have "\<dots> = (1 / 2) * base_in outer * ((base_in outer / 2) * p)
                  - (1 / 2) * base_in inner * ((base_in inner / 2) * p)"
    by (simp add: power2_eq_square field_simps)
  finally have at: "TriSection_area_sq_in ?t =
      Inr ((1 / 2) * base_in outer * ((base_in outer / 2) * p)
           - (1 / 2) * base_in inner * ((base_in inner / 2) * p))"
    using pt by (simp add: TriSection_area_sq_in_def)
  have "equivalent_difference outer inner = Inr ?t
      \<and> base_in ?t = sqrt ((base_in outer)\<^sup>2 - (base_in inner)\<^sup>2)
      \<and> pitch_rise ?t = pitch_rise outer \<and> pitch_run ?t = pitch_run outer
      \<and> TriSection_area_sq_in outer = Inr ?ao
      \<and> TriSection_area_sq_in inner = Inr ?ai
      \<and> TriSection_area_sq_in ?t = Inr (?ao - ?ai)"
    using res ao ai at by simp
  then show ?thesis by blast
qed

theorem equivalent_difference_area_witness:
  "TriSection_init 5 6 12 = Inr tri_five \<and> TriSection_init 3 6 12 = Inr tri_three
   \<and> pitch tri_five = Inr (1 / 2) \<and> pitch tri_three = Inr (1 / 2)
   \<and> base_in tri_three \<le> base_in tri_five
   \<and> equivalent_difference tri_five tri_three =
        Inr \<lparr>base_in = 4, pitch_rise = 6, pitch_run = 12\<rparr>
   \<and> TriSection_area_sq_in tri_five = Inr (25 / 8)
   \<and> TriSection_area_sq_in tri_three = Inr (9 / 8)
   \<and> TriSection_area_sq_in \<lparr>base_in = 4, pitch_rise = 6, pitch_run = 12\<rparr> = Inr 2"
proof -
  have h: "TriSection_init 5 6 12 = Inr tri_five" "TriSection_init 3 6 12 = Inr tri_three"
    "pitch tri_five = Inr (1 / 2)" "pitch tri_three = Inr (1 / 2)"
    "base_in tri_three \<le> base_in tri_five"
    by (simp_all add: TriSection_init_def tri_five_def tri_three_def pitch_def py_truediv_def)
  obtain t a_outer a_inner where
    "equivalent_difference tri_five tri_three = Inr t"
    "base_in t = sqrt ((base_in tri_five)\<^sup>2 - (base_in tri_three)\<^sup>2)"
    "pitch_rise t = pitch_rise tri_five" "pitch_run t = pitch_run tri_five"
    "TriSection_area_sq_in tri_five = Inr a_outer"
    "TriSection_area_sq_in tri_three = Inr a_inner"
    "TriSection_area_sq_in t = Inr (a_outer - a_inner)"
    using equivalent_difference_area [OF h] by blast
  moreover have "TriSection_area_sq_in tri_five = Inr (25 / 8)"
    "TriSection_area_sq_in tri_three = Inr (9 / 8)"
    using h(3,4) by (simp_all add: TriSection_area_sq_in_def tri_five_def tri_three_def)
  moreover have "sqrt ((base_in tri_five)\<^sup>2 - (base_in tri_three)\<^sup>2) = 4"
    by (simp add: tri_five_def tri_three_def sqrt_16)
  ultimately have "t = \<lparr>base_in = 4, pitch_rise = 6, pitch_run = 12\<rparr>" 
    "TriSection_area_sq_in t = Inr 2"
    by (simp_all add: tri_five_def)
  with h \<open>equivalent_difference tri_five tri_three = Inr t\<close>
    \<open>TriSection_area_sq_in tri_five = Inr (25 / 8)\<close> \<open>TriSection_area_sq_in tri_three = Inr (9 / 8)\<close>
  show ?thesis by simp
qed

text \<open>
  C2, as the claim states it: the equivalent base of the triangles with bases 322.4 and
  213.6 (rise 6, run 12) would be about 241.27.  The base is the square root of 58316.8,
  which is more than 0.2 away from 241.27.
\<close>

theorem tri_outer_inner_base_counterexample:
  "equivalent_difference tri_outer tri_inner =
     Inr \<lparr>base_in = sqrt (583168 / 10), pitch_rise = 6, pitch_run = 12\<rparr>
   \<and> \<not> \<bar>sqrt (583168 / 10) - 24127 / 100\<bar> \<le> 2 / 10"
  using sqrt_583168_bounds(1) by (simp add: tri_outer_inner_result)

text \<open>
  C2, amended.  For \<open>outer = TriSection(322.4, 6, 12)\<close> and
  \<open>inner = TriSection(213.6, 6, 12)\<close>, \<open>equivalent_difference\<close> returns a triangle whose
  base is \<open>sqrt (322.4\<^sup>2 - 213.6\<^sup>2)\<close>, between 241.48 and 241.49, and whose area equals
  the area of \<open>outer\<close> minus the area of \<open>inner\<close>, hence within \<open>1e-6\<close> of it.
\<close>

theorem tri_outer_inner_difference:
  "TriSection_init (3224 / 10) 6 12 = Inr tri_outer
   \<and> TriSection_init (2136 / 10) 6 12 = Inr tri_inner
   \<and> (\<exists>t a_outer a_inner a_net.
         equivalent_difference tri_outer tri_inner = Inr t
         \<and> base_in t = sqrt ((3224 / 10)\<^sup>2 - (2136 / 10)\<^sup>2)
         \<and> 24148 / 100 < base_in t \<and> base_in t < 24149 / 100
         \<and> TriSection_area_sq_in tri_outer = Inr a_outer
         \<and> TriSection_area_sq_in tri_inner = Inr a_inner
         \<and> TriSection_area_sq_in t = Inr a_net
         \<and> a_net = a_outer - a_inner
         \<and> \<bar>a_net - (a_outer - a_inner)\<bar> \<le> 1 / 10 ^ 6)"
proof -
  let ?t = "\<lparr>base_in = sqrt (583168 / 10), pitch_rise = 6, pitch_run = 12\<rparr>"
  have sq: "(3224 / 10)\<^sup>2 - (2136 / 10)\<^sup>2 = (583168 / 10 :: real)"
    by (simp add: power2_eq_square)
  have ao: "TriSection_area_sq_in tri_outer = Inr (1299272 / 100)"
    by (simp add: tri_area_formula tri_outer_def power2_eq_square)
  have ai: "TriSection_area_sq_in tri_inner = Inr (570312 / 100)"
    by (simp add: tri_area_formula tri_inner_def power2_eq_square)
  have at: "TriSection_area_sq_in ?t = Inr (72896 / 10)"
    by (simp add: tri_area_formula)
  have "equivalent_difference tri_outer tri_inner = Inr ?t
         \<and> base_in ?t = sqrt ((3224 / 10)\<^sup>2 - (2136 / 10)\<^sup>2)
         \<and> 24148 / 100 < base_in ?t \<and> base_in ?t < 24149 / 100
         \<and> TriSection_area_sq_in tri_outer = Inr (1299272 / 100)
         \<and> TriSection_area_sq_in tri_inner = Inr (570312 / 100)
         \<and> TriSection_area_sq_in ?t = Inr (72896 / 10)
         \<and> (72896 / 10 :: real) = 1299272 / 100 - 570312 / 100
         \<and> \<bar>72896 / 10 - (1299272 / 100 - 570312 / 100 :: real)\<bar> \<le> 1 / 10 ^ 6"
    using sqrt_583168_bounds ao ai at by (simp add: tri_outer_inner_result power2_eq_square)
  then have "\<exists>t a_outer a_inner a_net.
         equivalent_difference tri_outer tri_inner = Inr t
         \<and> base_in t = sqrt ((3224 / 10)\<^sup>2 - (2136 / 10)\<^sup>2)
         \<and> 24148 / 100 < base_in t \<and> base_in t < 24149 / 100
         \<and> TriSection_area_sq_in tri_outer = Inr a_outer
         \<and> TriSection_area_sq_in tri_inner = Inr a_inner
         \<and> TriSection_area_sq_in t = Inr a_net
         \<and> a_net = a_outer - a_inner
         \<and> \<bar>a_net - (a_outer - a_inner)\<bar> \<le> 1 / 10 ^ 6"
    by blast
  then show ?thesis
    by (simp add: TriSection_init_def tri_outer_def tri_inner_def)
qed

subsection \<open>Square inches to square feet and inches\<close>

text \<open>
  C10, as the claim states it: the remainder would lie in the half-open interval
  \<open>[0, 144)\<close> and \<open>144 * ft + rem = x\<close> for every input.  For the float \<open>x = -2^-70\<close> the
  remainder \<open>x + 144\<close> rounds to \<open>144.0\<close> and the result is \<open>(-1, 144.0)\<close>; the wall with a
  section of \<open>0.3\<close> by \<open>1.0\<close> and openings of \<open>0.1\<close> and \<open>0.2\<close> by \<open>1.0\<close> has the siding
  area \<open>-2^-54\<close> and reports \<open>(-1, 144.0)\<close> as well.
\<close>

theorem convert_tiny_negative_counterexample:
  "is_f64 (- (1 / 2 ^ 70))
   \<and> convert_sq_in_to_ft_in (Fin (- (1 / 2 ^ 70))) = Inr (- 1, Fin 144)
   \<and> Wall64_siding_area_sq_in sum_left wall64_tenths = Inr (Fin (- (1 / 2 ^ 54)))
   \<and> siding_area_ft_in sum_left wall64_tenths = Inr (- 1, Fin 144)"
proof -
  have "convert_sq_in_to_ft_in (Fin (- (1 / 2 ^ 70))) =
      Inr (trunc (fdm_floordiv (- (1 / 2 ^ 70)) 144), Fin (fdm_rem (- (1 / 2 ^ 70)) 144))"
    by (rule convert_Fin [OF is_f64_tiny])
  also have "\<dots> = Inr (- 1, Fin 144)"
    unfolding tiny_rem tiny_floordiv using trunc_of_int [of "- 1"] by simp
  finally show ?thesis
    using is_f64_tiny wall64_tenths_siding wall64_tenths_ft_in by (intro conjI)
qed

text \<open>
  C10, amended.  For every finite float \<open>x\<close>, \<open>convert_sq_in_to_ft_in x\<close> returns a pair
  \<open>(ft, rem)\<close> with \<open>rem\<close> in the closed interval \<open>[0, 144]\<close>; \<open>ft\<close> is negative when
  \<open>x < 0\<close> and is \<open>-1\<close> for \<open>x\<close> in \<open>[-144, 0)\<close>.  When \<open>|x| < 2^53\<close>, \<open>ft\<close> is
  \<open>floor (x / 144)\<close> and \<open>rem\<close> is \<open>x - 144 * floor (x / 144)\<close>, exactly for \<open>x \<ge> 0\<close> and
  rounded to the nearest float for \<open>x < 0\<close>, so that \<open>144 * ft + rem\<close> is within \<open>2^-46\<close>
  of \<open>x\<close>.  Hence a wall whose siding area is a negative finite float reports, through
  \<open>siding_area_ft_in\<close>, negative feet with a remainder in \<open>[0, 144]\<close>, whatever the
  summation \<open>py_sum\<close>.
\<close>

theorem convert_sq_in_to_ft_in_f64:
  "(is_f64 x \<longrightarrow>
      (\<exists>ft rem_in. convert_sq_in_to_ft_in (Fin x) = Inr (ft, Fin rem_in)
         \<and> 0 \<le> rem_in \<and> rem_in \<le> 144
         \<and> (x < 0 \<longrightarrow> ft < 0)
         \<and> (- 144 \<le> x \<and> x < 0 \<longrightarrow> ft = - 1)
         \<and> (\<bar>x\<bar> < 2 ^ 53 \<longrightarrow>
              ft = \<lfloor>x / 144\<rfloor>
              \<and> rem_in = (if 0 \<le> x then x - 144 * real_of_int \<lfloor>x / 144\<rfloor>
                           else rne (x - 144 * real_of_int \<lfloor>x / 144\<rfloor>))
              \<and> \<bar>144 * real_of_int ft + rem_in - x\<bar> \<le> 1 / 2 ^ 46)))
   \<and> (Wall64_siding_area_sq_in py_sum w = Inr (Fin a) \<and> a < 0 \<longrightarrow>
        (\<exists>ft rem_in. siding_area_ft_in py_sum w = Inr (ft, Fin rem_in)
           \<and> ft < 0 \<and> 0 \<le> rem_in \<and> rem_in \<le> 144))"
proof (intro conjI impI)
  assume x: "is_f64 x"
  from convert_finite [OF x] obtain ft rem_in where
    r: "convert_sq_in_to_ft_in (Fin x) = Inr (ft, Fin rem_in)" "0 \<le> rem_in" "rem_in \<le> 144"
      "x < 0 \<longrightarrow> ft < 0"
      "\<bar>x\<bar> < 2 ^ 53 \<longrightarrow>
         ft = \<lfloor>x / 144\<rfloor>
         \<and> rem_in = (if 0 \<le> x then x - 144 * real_of_int \<lfloor>x / 144\<rfloor>
                      else rne (x - 144 * real_of_int \<lfloor>x / 144\<rfloor>))
         \<and> \<bar>144 * real_of_int ft + rem_in - x\<bar> \<le> 1 / 2 ^ 46"
    by blast
  have "ft = - 1" if "- 144 \<le> x \<and> x < 0"
  proof -
    have "\<bar>x\<bar> < 2 ^ 53" using that by simp
    with r(5) have "ft = \<lfloor>x / 144\<rfloor>" by simp
    then show ?thesis using that floor_div_minus_one [of 144 x] by simp
  qed
  with r show "\<exists>ft rem_in. convert_sq_in_to_ft_in (Fin x) = Inr (ft, Fin rem_in)
         \<and> 0 \<le> rem_in \<and> rem_in \<le> 144
         \<and> (x < 0 \<longrightarrow> ft < 0)
         \<and> (- 144 \<le> x \<and> x < 0 \<longrightarrow> ft = - 1)
         \<and> (\<bar>x\<bar> < 2 ^ 53 \<longrightarrow>
              ft = \<lfloor>x / 144\<rfloor>
              \<and> rem_in = (if 0 \<le> x then x - 144 * real_of_int \<lfloor>x / 144\<rfloor>
                           else rne (x - 144 * real_of_int \<lfloor>x / 144\<rfloor>))
              \<and> \<bar>144 * real_of_int ft + rem_in - x\<bar> \<le> 1 / 2 ^ 46)"
    by blast
next
  assume w: "Wall64_siding_area_sq_in py_sum w = Inr (Fin a) \<and> a < 0"
  then have "is_f64 a"
    by (auto simp: Wall64_siding_area_sq_in_def split: sum.splits dest: fsub_result_is_f64)
  from convert_finite [OF this] w
  show "\<exists>ft rem_in. siding_area_ft_in py_sum w = Inr (ft, Fin rem_in)
           \<and> ft < 0 \<and> 0 \<le> rem_in \<and> rem_in \<le> 144"
    by (auto simp: siding_area_ft_in_def)
qed

theorem convert_sq_in_to_ft_in_f64_witness:
  "is_f64 (- 100) \<and> (- 100 :: real) < 0 \<and> - 144 \<le> (- 100 :: real) \<and> \<bar>- 100 :: real\<bar> < 2 ^ 53
   \<and> convert_sq_in_to_ft_in (Fin (- 100)) = Inr (- 1, Fin 44)
   \<and> Wall64_siding_area_sq_in sum_left wall64_over_cut = Inr (Fin (- 100))
   \<and> siding_area_ft_in sum_left wall64_over_cut = Inr (- 1, Fin 44)"
  using convert_sq_in_to_ft_in_f64 [of "- 100" sum_left wall64_over_cut "- 100"]
  by (simp add: is_f64_m100 convert_m100 wall64_over_cut_siding siding_area_ft_in_def)

subsection \<open>Panel count\<close>

text \<open>
  C6, as the claim states it: the call would raise only for \<open>panel_sq_ft \<le> 0\<close> and
  otherwise return the ceiling of \<open>(max 0 area / 144) * (1 + waste_pct) / panel_sq_ft\<close>.
  For the floats 14400, 10 and \<open>0.2\<close> the code returns 12, while the ceiling of that
  expression is 13; for the floats \<open>2^1023\<close>, \<open>2^-30\<close> and 0 the quotient is infinite and
  \<open>math.ceil\<close> raises \<open>OverflowError\<close>, although \<open>panel_sq_ft\<close> is positive.
\<close>

theorem panels_rounding_counterexample:
  "panels_needed_for_area_sq_in (Fin 14400) (Fin 10) (Fin float_0_2) = Inr 12
   \<and> \<lceil>max 0 14400 / 144 * (1 + float_0_2) / 10\<rceil> = (13 :: int)
   \<and> \<not> fle (Fin (1 / 2 ^ 30)) (Fin 0)
   \<and> panels_needed_for_area_sq_in (Fin (2 ^ 1023)) (Fin (1 / 2 ^ 30)) (Fin 0) = Inl OverflowError"
  using panels_14400 panels_exact_13 panels_overflow by (simp add: fle_def feq_def)

text \<open>
  C6, amended.  \<open>panels_needed_for_area_sq_in\<close> raises its \<open>ValueError\<close> exactly when
  \<open>panel_sq_ft \<le> 0\<close>.  Otherwise it divides \<open>max(0.0, area)\<close> by 144, multiplies by
  \<open>1 + waste_pct\<close> and divides by \<open>panel_sq_ft\<close> in float arithmetic, each of the four
  operations rounded to the nearest float, and returns \<open>math.ceil\<close> of that float: for
  finite inputs of moderate size (area and waste up to \<open>2^100\<close> in magnitude, panel at
  least \<open>2^-100\<close>) this is the ceiling of the rounded value and nothing is raised.  An
  area that is not positive counts as zero.  10000 square inches with 32 square-foot
  panels and the float \<open>0.1\<close> of waste need 3 panels.
\<close>

theorem panels_needed_for_area_sq_in_f64:
  "panels_needed_for_area_sq_in area panel_sq_ft waste_pct =
     (if fle panel_sq_ft (Fin 0) then Inl (ValueError Panel_sq_ft_must_be_positive)
      else math_ceil
             (fdiv (fmul (fdiv (py_max (Fin 0) area) (Fin 144)) (fadd (Fin 1) waste_pct))
                panel_sq_ft))
   \<and> (panels_needed_for_area_sq_in area panel_sq_ft waste_pct =
          Inl (ValueError Panel_sq_ft_must_be_positive) \<longleftrightarrow> fle panel_sq_ft (Fin 0))
   \<and> (\<not> flt (Fin 0) area \<longrightarrow>
        panels_needed_for_area_sq_in area panel_sq_ft waste_pct =
        panels_needed_for_area_sq_in (Fin 0) panel_sq_ft waste_pct)
   \<and> (\<bar>a\<bar> \<le> 2 ^ 100 \<and> \<bar>wst\<bar> \<le> 2 ^ 100 \<and> 1 / 2 ^ 100 \<le> p \<longrightarrow>
        panels_needed_for_area_sq_in (Fin a) (Fin p) (Fin wst) =
          Inr \<lceil>rne (rne (rne (max 0 a / 144) * rne (1 + wst)) / p)\<rceil>)
   \<and> panels_needed_for_area_sq_in (Fin 10000) (Fin 32) (Fin float_0_1) = Inr 3"
  using panels_unfold [of area panel_sq_ft waste_pct] panels_clamp [of area panel_sq_ft waste_pct]
    panels_finite [of a wst p] panels_10000 math_ceil_not_panel
  by auto

theorem panels_needed_for_area_sq_in_f64_witness:
  "\<not> flt (Fin 0) (Fin (- 10000))
   \<and> \<bar>10000 :: real\<bar> \<le> 2 ^ 100 \<and> \<bar>float_0_1\<bar> \<le> 2 ^ 100 \<and> 1 / 2 ^ 100 \<le> (32 :: real)
   \<and> panels_needed_for_area_sq_in (Fin (- 10000)) (Fin 32) (Fin float_0_1) =
       panels_needed_for_area_sq_in (Fin 0) (Fin 32) (Fin float_0_1)
   \<and> panels_needed_for_area_sq_in (Fin 10000) (Fin 32) (Fin float_0_1) = Inr 3
   \<and> panels_needed_for_area_sq_in (Fin 10000) (Fin 0) (Fin float_0_1) =
       Inl (ValueError Panel_sq_ft_must_be_positive)
   \<and> panels_needed_for_area_sq_in (Fin 10000) (Fin (- 32)) (Fin float_0_1) =
       Inl (ValueError Panel_sq_ft_must_be_positive)"
proof -
  have h: "\<not> flt (Fin 0) (Fin (- 10000))"
    "\<bar>10000 :: real\<bar> \<le> 2 ^ 100 \<and> \<bar>float_0_1\<bar> \<le> 2 ^ 100 \<and> 1 / 2 ^ 100 \<le> (32 :: real)"
    using tenths_bounds(1) by simp_all
  have z: "fle (Fin 0) (Fin 0)" "fle (Fin (- 32)) (Fin 0)" by (simp_all add: fle_def feq_def)
  note t1 = panels_needed_for_area_sq_in_f64
    [of "Fin (- 10000)" "Fin 32" "Fin float_0_1" 10000 float_0_1 32]
  note t2 = panels_needed_for_area_sq_in_f64
    [of "Fin 10000" "Fin 0" "Fin float_0_1" 10000 float_0_1 32]
  note t3 = panels_needed_for_area_sq_in_f64
    [of "Fin 10000" "Fin (- 32)" "Fin float_0_1" 10000 float_0_1 32]
  from t1 h have "panels_needed_for_area_sq_in (Fin (- 10000)) (Fin 32) (Fin float_0_1) =
       panels_needed_for_area_sq_in (Fin 0) (Fin 32) (Fin float_0_1)"
    "panels_needed_for_area_sq_in (Fin 10000) (Fin 32) (Fin float_0_1) = Inr 3"
    by blast+
  moreover from t2 z(1) have "panels_needed_for_area_sq_in (Fin 10000) (Fin 0) (Fin float_0_1) =
       Inl (ValueError Panel_sq_ft_must_be_positive)" by blast
  moreover from t3 z(2) have "panels_needed_for_area_sq_in (Fin 10000) (Fin (- 32)) (Fin float_0_1) =
       Inl (ValueError Panel_sq_ft_must_be_positive)" by blast
  ultimately show ?thesis using h by blast
qed

end
